theory Spec2Isabelle
  imports Complex_Main "HOL-Library.Code_Target_Nat"
begin

section \<open>The tokenizer of pg-basic (src/tokenizer.js)\<close>

text \<open>
  Source lines are strings of 8-bit characters. JavaScript has one number type, the
  doubles: a number is here the rational value of a finite double, or the double
  \<open>Infinity\<close> (the tokenizer makes no negative number but the \<open>-1\<close> it starts with, and no
  NaN). The regular expressions of the source are written out as matching functions: each
  returns the captured group \<open>m[1]\<close> and the whole match \<open>m[0]\<close>, or \<open>None\<close> when the regular
  expression does not match at the start of the text.
\<close>

datatype number = Finite rat | Infinity

subsection \<open>Character classes\<close>

definition dq :: char where "dq = CHR 0x22"
definition bsl :: char where "bsl = CHR 0x5C"
definition sq :: char where "sq = CHR 0x27"

definition lowers :: string where "lowers = ''abcdefghijklmnopqrstuvwxyz''"
definition uppers :: string where "uppers = ''ABCDEFGHIJKLMNOPQRSTUVWXYZ''"

definition is_space :: "char \<Rightarrow> bool" where
  \<comment> \<open>the class \<open>\s\<close>, among 8-bit characters\<close>
  "is_space c = (c \<in> set [CHR 0x09, CHR 0x0A, CHR 0x0B, CHR 0x0C, CHR 0x0D, CHR 0x20, CHR 0xA0])"

definition is_digit :: "char \<Rightarrow> bool" where
  \<comment> \<open>the class \<open>\d\<close>\<close>
  "is_digit c = (c \<in> set ''0123456789'')"

definition is_alpha :: "char \<Rightarrow> bool" where
  \<comment> \<open>the class \<open>[a-z]\<close> under the flag \<open>i\<close>\<close>
  "is_alpha c = (c \<in> set lowers \<or> c \<in> set uppers)"

definition is_line_terminator :: "char \<Rightarrow> bool" where
  \<comment> \<open>what \<open>.\<close> does not match\<close>
  "is_line_terminator c = (c = CHR 0x0A \<or> c = CHR 0x0D)"

definition upper_char :: "char \<Rightarrow> char" where
  "upper_char c = (case map_of (zip lowers uppers) c of Some u \<Rightarrow> u | None \<Rightarrow> c)"

definition toUpperCase :: "string \<Rightarrow> string" where
  "toUpperCase s = map upper_char s"

definition spaces :: "string \<Rightarrow> string" where
  \<comment> \<open>what \<open>\s*\<close> matches at the start of the text\<close>
  "spaces s = takeWhile is_space s"

subsection \<open>Tokens\<close>

datatype ttype =
  T_lineno | T_keyword | T_comment | T_string | T_function | T_operation
  | T_number | T_variable | T_logic | T_constant | T_linemod | T_eof

fun type_name :: "ttype \<Rightarrow> string" where
  "type_name T_lineno = ''lineno''"
| "type_name T_keyword = ''keyword''"
| "type_name T_comment = ''comment''"
| "type_name T_string = ''string''"
| "type_name T_function = ''function''"
| "type_name T_operation = ''operation''"
| "type_name T_number = ''number''"
| "type_name T_variable = ''variable''"
| "type_name T_logic = ''logic''"
| "type_name T_constant = ''constant''"
| "type_name T_linemod = ''linemod''"
| "type_name T_eof = ''eof''"

datatype lexeme = Str string | Num number

datatype token = Token (type: ttype) (lexeme: lexeme)

definition eof :: token where
  "eof = Token T_eof (Str '''')"

definition KEYWORDS :: "string list" where
  "KEYWORDS = [''IF'', ''THEN'', ''ELSE'', ''FOR'', ''ON'', ''TO'', ''STEP'', ''GOTO'',
     ''GOSUB'', ''RETURN'', ''NEXT'', ''INPUT'', ''LET'', ''CLC'', ''CLT'', ''CLS'', ''END'',
     ''PRINT'', ''PLOT'', ''DRAW'', ''UNDRAW'', ''ARRAY'', ''DIM'', ''DATA'', ''READ'', ''REM'',
     ''PAUSE'', ''STOP'']"

definition CONSTANTS :: "string list" where
  "CONSTANTS = [''LEVEL'', ''PI'']"

definition expressionTypes :: "ttype list" where
  "expressionTypes =
     [T_string, T_function, T_operation, T_number, T_variable, T_logic, T_constant]"

subsection \<open>The regular expressions\<close>

definition ci_prefix :: "string \<Rightarrow> string \<Rightarrow> bool" where
  \<comment> \<open>the literal \<open>k\<close> matches at the start of \<open>s\<close>, letter case ignored\<close>
  "ci_prefix k s = (length k \<le> length s \<and> toUpperCase (take (length k) s) = toUpperCase k)"

fun match_alt :: "string list \<Rightarrow> string \<Rightarrow> string option" where
  \<comment> \<open>an alternation \<open>(k1|k2|...)\<close> under the flag \<open>i\<close>: the first alternative that matches wins\<close>
  "match_alt [] s = None"
| "match_alt (k # ks) s = (if ci_prefix k s then Some (take (length k) s) else match_alt ks s)"

definition match_word :: "string list \<Rightarrow> string \<Rightarrow> (string \<times> string) option" where
  \<comment> \<open>\<open>^(k1|k2|...)\s*\<close> under the flag \<open>i\<close>\<close>
  "match_word ks s =
     (case match_alt ks s of
        None \<Rightarrow> None
      | Some w \<Rightarrow> Some (w, w @ spaces (drop (length w) s)))"

definition joined :: "string list \<Rightarrow> string list" where
  \<comment> \<open>the alternatives of \<open>names.join('|')\<close>: joining no name gives the empty pattern\<close>
  "joined names = (if names = [] then [''''] else names)"

definition LINE_match :: "string \<Rightarrow> (string \<times> string) option" where
  \<comment> \<open>\<open>/^\s*(\d+)\s*/\<close>\<close>
  "LINE_match s =
     (let w = spaces s;
          d = takeWhile is_digit (drop (length w) s)
      in if d = [] then None
         else Some (d, w @ d @ spaces (drop (length w + length d) s)))"

fun quote_body :: "string \<Rightarrow> string option" where
  \<comment> \<open>\<open>(\\.|[^"\\])*"\<close>: the text up to the closing quote\<close>
  "quote_body [] = None"
| "quote_body (c # cs) =
     (if c = dq then Some []
      else if c = bsl then
        (case cs of
           [] \<Rightarrow> None
         | d # ds \<Rightarrow>
             if is_line_terminator d then None
             else (case quote_body ds of None \<Rightarrow> None | Some b \<Rightarrow> Some (c # d # b)))
      else (case quote_body cs of None \<Rightarrow> None | Some b \<Rightarrow> Some (c # b)))"

definition QUOTE_match :: "string \<Rightarrow> (string \<times> string) option" where
  \<comment> \<open>\<open>/^"((\\.|[^"\\])*)"\s*/\<close>\<close>
  "QUOTE_match s =
     (case s of
        [] \<Rightarrow> None
      | c # cs \<Rightarrow>
          if c \<noteq> dq then None
          else (case quote_body cs of
                  None \<Rightarrow> None
                | Some b \<Rightarrow> Some (b, dq # b @ dq # spaces (drop (length b + 1) cs))))"

definition KEY_match :: "string \<Rightarrow> (string \<times> string) option" where
  "KEY_match s = match_word (joined KEYWORDS) s"

definition FUN_match :: "string list \<Rightarrow> string \<Rightarrow> (string \<times> string) option" where
  \<comment> \<open>the names are \<open>Object.keys(Functions)\<close>, of src/functions.js: plain identifiers\<close>
  "FUN_match funs s = match_word (joined funs) s"

definition CONST_match :: "string \<Rightarrow> (string \<times> string) option" where
  "CONST_match s = match_word (joined CONSTANTS) s"

definition LOGIC_match :: "string \<Rightarrow> (string \<times> string) option" where
  \<comment> \<open>\<open>/^(AND|OR)\s*/i\<close>\<close>
  "LOGIC_match s = match_word [''AND'', ''OR''] s"

definition VAR_match :: "string \<Rightarrow> (string \<times> string) option" where
  \<comment> \<open>\<open>/^([a-z][0-9]*)\$?\s*/i\<close>\<close>
  "VAR_match s =
     (case s of
        [] \<Rightarrow> None
      | c # cs \<Rightarrow>
          if \<not> is_alpha c then None
          else (let v = c # takeWhile is_digit cs;
                    r = drop (length v) s;
                    dollar = (if r \<noteq> [] \<and> hd r = CHR ''$'' then ''$'' else [])
                in Some (v, v @ dollar @ spaces (drop (length dollar) r))))"

definition NUM_match :: "string \<Rightarrow> (string \<times> string) option" where
  \<comment> \<open>\<open>/^(\d+(\.\d+)?)\s*/i\<close>\<close>
  "NUM_match s =
     (let ip = takeWhile is_digit s;
          r = drop (length ip) s
      in if ip = [] then None
         else (let fp = (if r \<noteq> [] \<and> hd r = CHR ''.'' then takeWhile is_digit (tl r) else []);
                   n = (if fp = [] then ip else ip @ ''.'' @ fp)
               in Some (n, n @ spaces (drop (length n) s))))"

definition OP_match :: "string \<Rightarrow> (string \<times> string) option" where
  \<comment> \<open>\<open>/^(<>|>=|<=|[,\+\-\*\/%=<>\(\)\]\[])\s*/i\<close>\<close>
  "OP_match s =
     (case match_alt [''<>'', ''>='', ''<=''] s of
        Some w \<Rightarrow> Some (w, w @ spaces (drop 2 s))
      | None \<Rightarrow>
          (case s of
             [] \<Rightarrow> None
           | c # cs \<Rightarrow>
               if c \<in> set '',+-*/%=<>()][''
               then Some ([c], c # spaces cs) else None))"

definition LINEMOD_match :: "string \<Rightarrow> (string \<times> string) option" where
  \<comment> \<open>\<open>/^(;)\s*/i\<close>\<close>
  "LINEMOD_match s =
     (case s of
        [] \<Rightarrow> None
      | c # cs \<Rightarrow> if c = CHR '';'' then Some ([c], c # spaces cs) else None)"

subsection \<open>Numbers\<close>

definition digit_val :: "char \<Rightarrow> nat" where
  "digit_val c = (case map_of (zip ''0123456789'' [0, 1, 2, 3, 4, 5, 6, 7, 8, 9]) c of
                    Some d \<Rightarrow> d | None \<Rightarrow> 0)"

definition digits_val :: "string \<Rightarrow> nat" where
  "digits_val s = foldl (\<lambda>a c. 10 * a + digit_val c) 0 s"

text \<open>
  The host reads a decimal numeral as the double nearest to its value, a tie going to the
  double of even significand, and as \<open>Infinity\<close> from \<open>2^1024 - 2^970\<close> on. A double is
  \<open>m * 2^e\<close> with \<open>m < 2^53\<close> and \<open>-1074 \<le> e\<close>; \<open>to_double\<close> is this rounding, on the
  values that are not negative.
\<close>

fun bits :: "nat \<Rightarrow> nat" where
  \<comment> \<open>the number of binary digits\<close>
  "bits n = (if n = 0 then 0 else Suc (bits (n div 2)))"

declare bits.simps [simp del]

definition floor_log2 :: "rat \<Rightarrow> int" where
  \<comment> \<open>of a positive value \<open>q\<close>, the exponent \<open>k\<close> with \<open>2^k \<le> q < 2^(k+1)\<close>\<close>
  "floor_log2 q =
     (if 1 \<le> q then int (bits (nat \<lfloor>q\<rfloor>)) - 1 else - int (bits (nat (\<lceil>1 / q\<rceil> - 1))))"

definition pow2 :: "int \<Rightarrow> rat" where
  "pow2 e = (if 0 \<le> e then 2 ^ nat e else 1 / 2 ^ nat (- e))"

definition round_half_even :: "rat \<Rightarrow> int" where
  "round_half_even x =
     (let f = \<lfloor>x\<rfloor>; d = x - of_int f
      in if d < 1 / 2 then f else if 1 / 2 < d then f + 1 else if even f then f else f + 1)"

definition to_double :: "rat \<Rightarrow> number" where
  "to_double q =
     (if q = 0 then Finite 0
      else (let e = max (floor_log2 q - 52) (- 1074);
                r = of_int (round_half_even (q / pow2 e)) * pow2 e
            in if 2 ^ 1024 \<le> r then Infinity else Finite r))"

definition parseInt :: "string \<Rightarrow> number" where
  \<comment> \<open>on a text that starts with a digit, as \<open>m[1]\<close> of \<open>LINE\<close> does\<close>
  "parseInt s = to_double (of_nat (digits_val (takeWhile is_digit s)))"

definition parseFloat :: "string \<Rightarrow> number option" where
  \<comment> \<open>on a text that starts with a decimal literal; \<open>None\<close> is NaN\<close>
  "parseFloat s =
     (case NUM_match s of
        None \<Rightarrow> None
      | Some (n, _) \<Rightarrow>
          (let ip = takeWhile is_digit n;
               fp = drop (length ip + 1) n
           in Some (to_double (of_nat (digits_val ip) + of_nat (digits_val fp) / 10 ^ length fp))))"

subsection \<open>Errors\<close>

text \<open>
  \<open>ParseError\<close> is the class of src/errors.js, built from a line number and a message.
  \<open>Error\<close> and \<open>TypeError\<close> are the host's classes, built from a message alone.
  \<open>Thrown\<close> stands for whatever the expression translator (src/expr.js) throws.
\<close>

datatype error = ParseError number string | Error string | TypeError string | Thrown

subsection \<open>The class Tokenizer\<close>

record Tokenizer =
  stmnt :: string
  tokens :: "token list"
  index :: nat
  tokenized :: bool
  lineno :: number

definition new_Tokenizer :: "string \<Rightarrow> Tokenizer" where
  "new_Tokenizer s = \<lparr>stmnt = s, tokens = [], index = 0, tokenized = False,
                        lineno = Finite (- 1)\<rparr>"

definition assertTokenized :: "Tokenizer \<Rightarrow> error + unit" where
  "assertTokenized t =
     (if \<not> tokenized t then Inl (ParseError (lineno t) ''Call tokenize() first'') else Inr ())"

definition peek :: "Tokenizer \<Rightarrow> nat \<Rightarrow> error + token" where
  "peek t n =
     (case assertTokenized t of
        Inl e \<Rightarrow> Inl e
      | Inr _ \<Rightarrow>
          if index t + n \<ge> length (tokens t) then Inr eof
          else Inr (tokens t ! (index t + n)))"

definition next_token :: "Tokenizer \<Rightarrow> error + token \<times> Tokenizer" where
  \<comment> \<open>the method \<open>next\<close>\<close>
  "next_token t =
     (case assertTokenized t of
        Inl e \<Rightarrow> Inl e
      | Inr _ \<Rightarrow>
          if index t \<ge> length (tokens t) then Inr (eof, t)
          else Inr (tokens t ! index t, t\<lparr>index := index t + 1\<rparr>))"

text \<open>
  The \<open>eat\<close> methods read \<open>this.stmnt\<close> and push onto \<open>this.tokens\<close>: each returns the
  tokens it pushes and the text it has eaten, or \<open>None\<close> for \<open>null\<close>. The test
  \<open>m && m[0]\<close> refuses an empty match.
\<close>

definition eatLogic :: "string \<Rightarrow> (token list \<times> string) option" where
  "eatLogic s =
     (case LOGIC_match s of
        None \<Rightarrow> None
      | Some (m1, m0) \<Rightarrow>
          if m0 = [] then None else Some ([Token T_logic (Str (toUpperCase m1))], m0))"

definition eatKeyword :: "string \<Rightarrow> (token list \<times> string) option" where
  "eatKeyword s =
     (case KEY_match s of
        None \<Rightarrow> None
      | Some (m1, m0) \<Rightarrow>
          if m0 = [] then None
          else (let keyword = toUpperCase m1
                in if keyword = ''REM''
                   then Some ([Token T_keyword (Str keyword),
                               Token T_comment (Str (drop (length m0) s))], s)
                   else Some ([Token T_keyword (Str keyword)], m0)))"

definition eatFunction :: "string list \<Rightarrow> string \<Rightarrow> (token list \<times> string) option" where
  "eatFunction funs s =
     (case FUN_match funs s of
        None \<Rightarrow> None
      | Some (m1, m0) \<Rightarrow>
          if m0 = [] then None else Some ([Token T_function (Str (toUpperCase m1))], m0))"

definition eatConstant :: "string \<Rightarrow> (token list \<times> string) option" where
  "eatConstant s =
     (case CONST_match s of
        None \<Rightarrow> None
      | Some (m1, m0) \<Rightarrow>
          if m0 = [] then None else Some ([Token T_constant (Str (toUpperCase m1))], m0))"

definition eatVariable :: "string \<Rightarrow> (token list \<times> string) option" where
  "eatVariable s =
     (case VAR_match s of
        None \<Rightarrow> None
      | Some (m1, m0) \<Rightarrow>
          if m0 = [] then None else Some ([Token T_variable (Str (toUpperCase m1))], m0))"

definition eatNumber :: "number \<Rightarrow> string \<Rightarrow> error + (token list \<times> string) option" where
  "eatNumber lno s =
     (case NUM_match s of
        None \<Rightarrow> Inr None
      | Some (m1, m0) \<Rightarrow>
          if m0 = [] then Inr None
          else (case parseFloat m1 of
                  None \<Rightarrow> Inl (ParseError lno (''Error parsing number: '' @ m1))
                | Some num \<Rightarrow> Inr (Some ([Token T_number (Num num)], m0))))"

definition eatOperation :: "string \<Rightarrow> (token list \<times> string) option" where
  "eatOperation s =
     (case OP_match s of
        None \<Rightarrow> None
      | Some (m1, m0) \<Rightarrow>
          if m0 = [] then None else Some ([Token T_operation (Str m1)], m0))"

definition eatQuote :: "string \<Rightarrow> (token list \<times> string) option" where
  "eatQuote s =
     (case QUOTE_match s of
        None \<Rightarrow> None
      | Some (m1, m0) \<Rightarrow>
          if m0 = [] then None else Some ([Token T_string (Str (dq # m1 @ [dq]))], m0))"

definition eatLineMod :: "string \<Rightarrow> (token list \<times> string) option" where
  "eatLineMod s =
     (case LINEMOD_match s of
        None \<Rightarrow> None
      | Some (m1, m0) \<Rightarrow>
          if m0 = [] then None else Some ([Token T_linemod (Str (dq # m1 @ [dq]))], m0))"

definition eat :: "string list \<Rightarrow> number \<Rightarrow> string \<Rightarrow> error + (token list \<times> string) option" where
  \<comment> \<open>the chain \<open>eatKeyword() || eatQuote() || ... || eatLineMod()\<close> of \<open>tokenize\<close>\<close>
  "eat funs lno s =
     (case eatKeyword s of Some r \<Rightarrow> Inr (Some r) | None \<Rightarrow>
      case eatQuote s of Some r \<Rightarrow> Inr (Some r) | None \<Rightarrow>
      case eatLogic s of Some r \<Rightarrow> Inr (Some r) | None \<Rightarrow>
      case eatFunction funs s of Some r \<Rightarrow> Inr (Some r) | None \<Rightarrow>
      case eatConstant s of Some r \<Rightarrow> Inr (Some r) | None \<Rightarrow>
      case eatVariable s of Some r \<Rightarrow> Inr (Some r) | None \<Rightarrow>
      case eatNumber lno s of Inl e \<Rightarrow> Inl e | Inr (Some r) \<Rightarrow> Inr (Some r) | Inr None \<Rightarrow>
      case eatOperation s of Some r \<Rightarrow> Inr (Some r) | None \<Rightarrow>
      Inr (eatLineMod s))"

lemma eatKeyword_nonempty: "eatKeyword s = Some (toks, eaten) \<Longrightarrow> s \<noteq> [] \<Longrightarrow> eaten \<noteq> []"
  by (auto simp: eatKeyword_def Let_def split: option.splits if_splits)

lemma eatQuote_nonempty: "eatQuote s = Some (toks, eaten) \<Longrightarrow> eaten \<noteq> []"
  by (auto simp: eatQuote_def split: option.splits if_splits)

lemma eatLogic_nonempty: "eatLogic s = Some (toks, eaten) \<Longrightarrow> eaten \<noteq> []"
  by (auto simp: eatLogic_def split: option.splits if_splits)

lemma eatFunction_nonempty: "eatFunction funs s = Some (toks, eaten) \<Longrightarrow> eaten \<noteq> []"
  by (auto simp: eatFunction_def split: option.splits if_splits)

lemma eatConstant_nonempty: "eatConstant s = Some (toks, eaten) \<Longrightarrow> eaten \<noteq> []"
  by (auto simp: eatConstant_def split: option.splits if_splits)

lemma eatVariable_nonempty: "eatVariable s = Some (toks, eaten) \<Longrightarrow> eaten \<noteq> []"
  by (auto simp: eatVariable_def split: option.splits if_splits)

lemma eatNumber_nonempty: "eatNumber lno s = Inr (Some (toks, eaten)) \<Longrightarrow> eaten \<noteq> []"
  by (auto simp: eatNumber_def split: option.splits if_splits)

lemma eatOperation_nonempty: "eatOperation s = Some (toks, eaten) \<Longrightarrow> eaten \<noteq> []"
  by (auto simp: eatOperation_def split: option.splits if_splits)

lemma eatLineMod_nonempty: "eatLineMod s = Some (toks, eaten) \<Longrightarrow> eaten \<noteq> []"
  by (auto simp: eatLineMod_def split: option.splits if_splits)

lemma eat_nonempty:
  assumes "eat funs lno s = Inr (Some (toks, eaten))" and "s \<noteq> []"
  shows "eaten \<noteq> []"
proof (cases "eatKeyword s")
  case (Some r)
  with assms show ?thesis by (cases r) (auto simp: eat_def dest: eatKeyword_nonempty)
next
  case k: None
  show ?thesis
  proof (cases "eatQuote s")
    case (Some r)
    with assms k show ?thesis by (cases r) (auto simp: eat_def dest: eatQuote_nonempty)
  next
    case q: None
    show ?thesis
    proof (cases "eatLogic s")
      case (Some r)
      with assms k q show ?thesis by (cases r) (auto simp: eat_def dest: eatLogic_nonempty)
    next
      case l: None
      show ?thesis
      proof (cases "eatFunction funs s")
        case (Some r)
        with assms k q l show ?thesis
          by (cases r) (auto simp: eat_def dest: eatFunction_nonempty)
      next
        case f: None
        show ?thesis
        proof (cases "eatConstant s")
          case (Some r)
          with assms k q l f show ?thesis
            by (cases r) (auto simp: eat_def dest: eatConstant_nonempty)
        next
          case c: None
          show ?thesis
          proof (cases "eatVariable s")
            case (Some r)
            with assms k q l f c show ?thesis
              by (cases r) (auto simp: eat_def dest: eatVariable_nonempty)
          next
            case v: None
            from assms k q l f c v show ?thesis
              by (auto simp: eat_def split: sum.splits option.splits
                  dest: eatNumber_nonempty eatOperation_nonempty eatLineMod_nonempty)
          qed
        qed
      qed
    qed
  qed
qed

function tokenize_loop ::
  "string list \<Rightarrow> number \<Rightarrow> string \<Rightarrow> token list \<Rightarrow> error + token list" where
  \<comment> \<open>the loop \<open>while (this.stmnt.length)\<close> of \<open>tokenize\<close>, on \<open>this.stmnt\<close> and \<open>this.tokens\<close>\<close>
  "tokenize_loop funs lno s toks =
     (if s = [] then Inr toks
      else (case eat funs lno s of
              Inl e \<Rightarrow> Inl e
            | Inr None \<Rightarrow>
                Inl (ParseError lno (''Invalid syntax near: '' @ [sq] @ s @ [sq]))
            | Inr (Some (pushed, eaten)) \<Rightarrow>
                tokenize_loop funs lno (drop (length eaten) s) (toks @ pushed)))"
  by pat_completeness auto
termination
proof (relation "measure (\<lambda>(funs, lno, s, toks). length s)", goal_cases)
  case 1
  show ?case by simp
next
  case (2 funs lno s toks r pr pushed eaten)
  then have "eaten \<noteq> []"
    using eat_nonempty by metis
  with 2 show ?case by simp
qed

declare tokenize_loop.simps [simp del]

definition tokenize :: "string list \<Rightarrow> Tokenizer \<Rightarrow> error + Tokenizer" where
  "tokenize funs t =
     (case LINE_match (stmnt t) of
        None \<Rightarrow> Inl (ParseError (lineno t) ''Every line must start with a line number'')
      | Some (m1, m0) \<Rightarrow>
          (let lno = parseInt m1
           in case tokenize_loop funs lno (drop (length m0) (stmnt t))
                     (tokens t @ [Token T_lineno (Num lno)]) of
                Inl e \<Rightarrow> Inl e
              | Inr toks \<Rightarrow>
                  Inr (t\<lparr>stmnt := [], tokens := toks, tokenized := True, lineno := lno\<rparr>)))"

definition tokenizeLine :: "string list \<Rightarrow> string \<Rightarrow> error + token list" where
  "tokenizeLine funs line =
     (case tokenize funs (new_Tokenizer line) of
        Inl e \<Rightarrow> Inl e
      | Inr t \<Rightarrow> Inr (tokens t))"

section \<open>The parser of pg-basic (src/unnamed/part_000)\<close>

subsection \<open>Nodes\<close>

text \<open>
  The classes of src/nodes.js carry what their constructors are given. An expression,
  of type \<open>'e\<close>, is what the translator \<open>exprToJS\<close> of src/expr.js returns for a list of
  tokens; the translator is a parameter of the parser, written \<open>ex\<close>, and gives \<open>None\<close>
  where it throws. In a node, \<open>null\<close> is \<open>None\<close>.
\<close>

datatype 'e variable = Variable number lexeme "'e option"

datatype 'e node =
    PRINT number 'e bool
  | LET number "'e variable" 'e
  | REM number lexeme
  | PAUSE number 'e
  | INPUT number 'e "'e variable"
  | FOR number "'e variable" 'e 'e "'e option"
  | NEXT number "'e variable"
  | GOTO number 'e
  | END number
  | IF number 'e "'e node" "'e node option"

subsection \<open>Numbers in messages\<close>

text \<open>
  A number in a template string is printed by the host: the shortest decimal digits \<open>s\<close>,
  \<open>k\<close> of them, with an exponent \<open>n\<close>, such that \<open>s * 10^(n-k)\<close> reads back as the same
  double, the nearest to it where several do, an even \<open>s\<close> on a tie; in plain notation
  where \<open>-6 < n \<le> 21\<close>, with an exponent otherwise.
\<close>

definition digit_char :: "nat \<Rightarrow> char" where
  "digit_char d = ''0123456789'' ! (d mod 10)"

fun digits_of :: "nat \<Rightarrow> nat \<Rightarrow> string" where
  "digits_of 0 n = []"
| "digits_of (Suc fuel) n =
     (if n < 10 then [digit_char n] else digits_of fuel (n div 10) @ [digit_char n])"

definition nat_str :: "nat \<Rightarrow> string" where
  "nat_str n = digits_of (Suc n) n"

fun digits10 :: "nat \<Rightarrow> nat" where
  \<comment> \<open>the number of decimal digits\<close>
  "digits10 n = (if n = 0 then 0 else Suc (digits10 (n div 10)))"

declare digits10.simps [simp del]

definition pow10 :: "int \<Rightarrow> rat" where
  "pow10 e = (if 0 \<le> e then 10 ^ nat e else 1 / 10 ^ nat (- e))"

definition decimal_exponent :: "rat \<Rightarrow> int" where
  \<comment> \<open>of a positive value \<open>x\<close>, the exponent \<open>n\<close> with \<open>10^(n-1) \<le> x < 10^n\<close>\<close>
  "decimal_exponent x =
     (if 1 \<le> x then int (digits10 (nat \<lfloor>x\<rfloor>))
      else 1 - int (digits10 (nat (\<lceil>1 / x\<rceil> - 1))))"

definition candidates :: "rat \<Rightarrow> nat \<Rightarrow> (nat \<times> int) list" where
  \<comment> \<open>the digits \<open>s\<close>, \<open>k\<close> of them, and exponents \<open>n\<close> that read back as \<open>x\<close>: of the
      \<open>s\<close> on each side of \<open>x\<close>, the two next to it\<close>
  "candidates x k =
     concat (map (\<lambda>n.
       (let s0 = nat \<lfloor>x / pow10 (n - int k)\<rfloor>
        in filter (\<lambda>(s, n). 10 ^ (k - 1) \<le> s \<and> s < 10 ^ k
                     \<and> to_double (of_nat s * pow10 (n - int k)) = Finite x)
             [(s0, n), (s0 + 1, n)]))
       [decimal_exponent x, decimal_exponent x + 1])"

definition better :: "rat \<Rightarrow> nat \<Rightarrow> nat \<times> int \<Rightarrow> nat \<times> int \<Rightarrow> nat \<times> int" where
  "better x k c b =
     (let dc = \<bar>of_nat (fst c) * pow10 (snd c - int k) - x\<bar>;
          db = \<bar>of_nat (fst b) * pow10 (snd b - int k) - x\<bar>
      in if dc < db \<or> (dc = db \<and> even (fst c) \<and> odd (fst b)) then c else b)"

fun shortest :: "rat \<Rightarrow> nat \<Rightarrow> nat \<Rightarrow> nat \<times> nat \<times> int" where
  \<comment> \<open>the search for the least \<open>k\<close>, from \<open>k\<close> on; seventeen digits tell any double\<close>
  "shortest x 0 k = (k, nat \<lfloor>x / pow10 (decimal_exponent x - int k)\<rfloor>, decimal_exponent x)"
| "shortest x (Suc fuel) k =
     (case candidates x k of
        [] \<Rightarrow> shortest x fuel (Suc k)
      | c # cs \<Rightarrow> (k, fold (better x k) cs c))"

definition positive_str :: "rat \<Rightarrow> string" where
  "positive_str x =
     (let (k, s, n) = shortest x 17 1;
          ds = nat_str s
      in if int k \<le> n \<and> n \<le> 21 then ds @ replicate (nat n - k) (CHR ''0'')
         else if 0 < n \<and> n \<le> 21 then take (nat n) ds @ ''.'' @ drop (nat n) ds
         else if - 6 < n \<and> n \<le> 0 then ''0.'' @ replicate (nat (- n)) (CHR ''0'') @ ds
         else (let e = n - 1;
                   es = (if e < 0 then ''-'' else ''+'') @ nat_str (nat \<bar>e\<bar>)
               in if k = 1 then ds @ ''e'' @ es
                  else take 1 ds @ ''.'' @ drop 1 ds @ ''e'' @ es))"

fun number_str :: "number \<Rightarrow> string" where
  "number_str Infinity = ''Infinity''"
| "number_str (Finite x) =
     (if x = 0 then ''0'' else if x < 0 then ''-'' @ positive_str (- x) else positive_str x)"

fun lexeme_str :: "lexeme \<Rightarrow> string" where
  "lexeme_str (Str s) = s"
| "lexeme_str (Num x) = number_str x"

subsection \<open>The functions assertType and getLineNo\<close>

definition bindE :: "error + 'a \<Rightarrow> ('a \<Rightarrow> error + 'b) \<Rightarrow> error + 'b" where
  \<comment> \<open>one statement after another: an exception ends the sequence\<close>
  "bindE m f = (case m of Inl e \<Rightarrow> Inl e | Inr a \<Rightarrow> f a)"

lemma bindE_simps [simp]: "bindE (Inl e) f = Inl e" "bindE (Inr a) f = f a"
  by (simp_all add: bindE_def)

lemma bindE_cong [fundef_cong]:
  "m = m' \<Longrightarrow> (\<And>a. m' = Inr a \<Longrightarrow> f a = f' a) \<Longrightarrow> bindE m f = bindE m' f'"
  by (cases m') (simp_all add: bindE_def)

definition assertType :: "token \<Rightarrow> ttype \<Rightarrow> string option \<Rightarrow> error + unit" where
  "assertType tok expected val =
     (if type tok \<noteq> expected
      then Inl (Error (''Expect token of type '' @ type_name expected
                       @ '' but got '' @ type_name (type tok)))
      else (case val of
              None \<Rightarrow> Inr ()
            | Some v \<Rightarrow>
                if lexeme tok \<noteq> Str v
                then Inl (Error (''Expected token value to be '' @ v
                                 @ '' but got '' @ lexeme_str (lexeme tok)))
                else Inr ()))"

definition getLineNo :: "token \<Rightarrow> error + number" where
  "getLineNo tok =
     bindE (assertType tok T_lineno None) (\<lambda>_.
       case lexeme tok of
         Str _ \<Rightarrow> Inl (Error ''lineno should be a number'')
       | Num n \<Rightarrow> Inr n)"

subsection \<open>The class Parser\<close>

text \<open>
  A method of the parser takes the tokenizer and returns its result with the tokenizer
  as the method leaves it. The field \<open>lineno\<close> of the parser is the argument \<open>lno\<close>.
\<close>

definition acceptKeyword :: "string \<Rightarrow> Tokenizer \<Rightarrow> error + token option \<times> Tokenizer" where
  \<comment> \<open>the source does not read its argument \<open>keyword\<close>\<close>
  "acceptKeyword keyword t =
     bindE (peek t 0) (\<lambda>p.
       if type p = T_keyword
       then bindE (next_token t) (\<lambda>(tok, t'). Inr (Some tok, t'))
       else Inr (None, t))"

definition expectKeyword :: "string \<Rightarrow> Tokenizer \<Rightarrow> error + lexeme \<times> Tokenizer" where
  "expectKeyword keyword t =
     bindE (acceptKeyword keyword t) (\<lambda>(r, t').
       case r of
         None \<Rightarrow>
           bindE (peek t' 0) (\<lambda>p.
             Inl (Error (''Expected '' @ keyword @ '' but got '' @ lexeme_str (lexeme p))))
       | Some tok \<Rightarrow> Inr (lexeme tok, t'))"

definition expectComment :: "Tokenizer \<Rightarrow> error + lexeme \<times> Tokenizer" where
  "expectComment t =
     bindE (next_token t) (\<lambda>(tok, t1).
       if type tok = T_comment
       then bindE (next_token t1) (\<lambda>(tok2, t2).
              bindE (assertType tok2 T_eof None) (\<lambda>_. Inr (lexeme tok, t2)))
       else bindE (assertType tok T_eof None) (\<lambda>_. Inr (Str [], t1)))"

definition expectOperation :: "string \<Rightarrow> Tokenizer \<Rightarrow> error + lexeme \<times> Tokenizer" where
  "expectOperation op t =
     bindE (next_token t) (\<lambda>(tok, t1).
       bindE (assertType tok T_operation None) (\<lambda>_.
         if lexeme tok \<noteq> Str op then Inl (Error (''Expected operation '' @ op))
         else Inr (lexeme tok, t1)))"

function expectExpr_loop ::
  "Tokenizer \<Rightarrow> token list \<Rightarrow> error + token list \<times> Tokenizer" where
  \<comment> \<open>the loop of \<open>expectExpr\<close>. The source declares \<open>const brackets = 0\<close>: the
      statements \<open>brackets++\<close> and \<open>brackets--\<close> throw the host's TypeError.\<close>
  "expectExpr_loop t expr =
     (let brackets = (0 :: int) in
      bindE (peek t 0) (\<lambda>p.
        if p = eof then Inr (expr, t)
        else if type p \<notin> set expressionTypes then Inr (expr, t)
        else if brackets = 0 \<and> (lexeme p = Str '']'' \<or> lexeme p = Str '')'') then Inr (expr, t)
        else bindE (next_token t) (\<lambda>(_, t1).
          if lexeme p = Str ''['' \<or> lexeme p = Str ''(''
          then Inl (TypeError ''Assignment to constant variable.'')
          else if lexeme p = Str '']'' \<or> lexeme p = Str '']''
          then Inl (TypeError ''Assignment to constant variable.'')
          else expectExpr_loop t1 (expr @ [p]))))"
  by pat_completeness auto
termination
proof (relation "measure (\<lambda>(t, expr). length (tokens t) - index t)", goal_cases)
  case 1
  show ?case by simp
next
  case (2 t expr brackets p r tok t1)
  then show ?case
    by (auto simp: peek_def next_token_def assertTokenized_def split: if_splits)
qed

definition expectExpr ::
  "(token list \<Rightarrow> 'e option) \<Rightarrow> Tokenizer \<Rightarrow> error + 'e \<times> Tokenizer" where
  "expectExpr ex t =
     bindE (expectExpr_loop t []) (\<lambda>(expr, t1).
       if length expr = 0 then Inl (Error ''Expected expression'')
       else (case ex expr of None \<Rightarrow> Inl Thrown | Some e \<Rightarrow> Inr (e, t1)))"

definition acceptLineMod :: "Tokenizer \<Rightarrow> error + bool \<times> Tokenizer" where
  "acceptLineMod t =
     bindE (peek t 0) (\<lambda>p.
       if type p = T_linemod
       then bindE (next_token t) (\<lambda>(_, t1). Inr (True, t1))
       else Inr (False, t))"

definition expectLineMod :: "Tokenizer \<Rightarrow> error + bool \<times> Tokenizer" where
  "expectLineMod t =
     bindE (acceptLineMod t) (\<lambda>(r, t1).
       if \<not> r then Inl (Error ''Expected ;'') else Inr (True, t1))"

definition acceptSubscript ::
  "(token list \<Rightarrow> 'e option) \<Rightarrow> Tokenizer \<Rightarrow> error + 'e option \<times> Tokenizer" where
  "acceptSubscript ex t =
     bindE (peek t 0) (\<lambda>p.
       if lexeme p \<noteq> Str ''['' then Inr (None, t)
       else bindE (next_token t) (\<lambda>(tok1, t1).
         bindE (assertType tok1 T_operation (Some ''['')) (\<lambda>_.
           bindE (expectExpr ex t1) (\<lambda>(expr, t2).
             bindE (next_token t2) (\<lambda>(tok3, t3).
               bindE (assertType tok3 T_operation (Some '']'')) (\<lambda>_.
                 Inr (Some expr, t3)))))))"

definition expectVariable ::
  "(token list \<Rightarrow> 'e option) \<Rightarrow> number \<Rightarrow> Tokenizer \<Rightarrow> error + 'e variable \<times> Tokenizer" where
  "expectVariable ex lno t =
     bindE (next_token t) (\<lambda>(tok, t1).
       bindE (assertType tok T_variable None) (\<lambda>_.
         bindE (acceptSubscript ex t1) (\<lambda>(sub, t2).
           Inr (Variable lno (lexeme tok) sub, t2))))"

subsection \<open>The cursor only moves forward\<close>

declare expectExpr_loop.simps [simp del]

definition same_tokens :: "Tokenizer \<Rightarrow> Tokenizer \<Rightarrow> bool" where
  \<comment> \<open>the second tokenizer is the first with its cursor moved forward or left in place\<close>
  "same_tokens t t' = (tokens t' = tokens t \<and> tokenized t' = tokenized t \<and> index t \<le> index t')"

lemma same_tokens_refl [simp]: "same_tokens t t"
  by (simp add: same_tokens_def)

lemma same_tokens_trans: "same_tokens t t1 \<Longrightarrow> same_tokens t1 t2 \<Longrightarrow> same_tokens t t2"
  by (auto simp: same_tokens_def)

lemma next_token_same: "next_token t = Inr (tok, t') \<Longrightarrow> same_tokens t t'"
  by (auto simp: next_token_def assertTokenized_def same_tokens_def split: if_splits)

lemma next_token_advances:
  "next_token t = Inr (tok, t') \<Longrightarrow> type tok \<noteq> T_eof \<Longrightarrow>
     index t < length (tokens t) \<and> index t' = Suc (index t)"
  by (auto simp: next_token_def assertTokenized_def eof_def split: if_splits)

lemma assertType_type: "assertType tok expected val = Inr u \<Longrightarrow> type tok = expected"
  by (auto simp: assertType_def split: if_splits)

definition scan_stops :: "token \<Rightarrow> bool" where
  \<comment> \<open>the three exits of the loop of \<open>expectExpr\<close>, with \<open>brackets = 0\<close>\<close>
  "scan_stops p = (p = eof \<or> type p \<notin> set expressionTypes
     \<or> lexeme p = Str '']'' \<or> lexeme p = Str '')'')"

definition opens :: "token \<Rightarrow> bool" where
  "opens p = (lexeme p = Str ''['' \<or> lexeme p = Str ''('')"

lemma expectExpr_loop_unfold:
  "expectExpr_loop t expr =
     (case peek t 0 of
        Inl e \<Rightarrow> Inl e
      | Inr p \<Rightarrow>
          if scan_stops p then Inr (expr, t)
          else (case next_token t of
                  Inl e \<Rightarrow> Inl e
                | Inr (tok, t1) \<Rightarrow>
                    if opens p then Inl (TypeError ''Assignment to constant variable.'')
                    else expectExpr_loop t1 (expr @ [p])))"
  by (subst expectExpr_loop.simps)
     (auto simp: scan_stops_def opens_def Let_def bindE_def split: sum.splits)

lemma peek_next:
  "peek t 0 = Inr p \<Longrightarrow> p \<noteq> eof \<Longrightarrow>
     next_token t = Inr (p, t\<lparr>index := Suc (index t)\<rparr>) \<and> index t < length (tokens t)"
  by (auto simp: peek_def next_token_def assertTokenized_def split: if_splits)

lemma expectExpr_loop_same: "expectExpr_loop t expr = Inr (expr', t') \<Longrightarrow> same_tokens t t'"
proof (induction "length (tokens t) - index t" arbitrary: t expr rule: less_induct)
  case less
  show ?case
  proof (cases "peek t 0 :: error + token")
    case (Inl e)
    with less.prems show ?thesis by (simp add: expectExpr_loop_unfold [of t])
  next
    case (Inr p)
    show ?thesis
    proof (cases "scan_stops p")
      case True
      with less.prems Inr show ?thesis
        by (simp add: expectExpr_loop_unfold [of t])
    next
      case stop: False
      then have "p \<noteq> eof" by (auto simp: scan_stops_def)
      from peek_next [OF Inr this]
      have nx: "next_token t = (Inr (p, t\<lparr>index := Suc (index t)\<rparr>) :: error + _)"
        and lt: "index t < length (tokens t)" by auto
      let ?t1 = "t\<lparr>index := Suc (index t)\<rparr>"
      from less.prems Inr stop nx
      have rec: "expectExpr_loop ?t1 (expr @ [p]) = Inr (expr', t')"
        by (simp add: expectExpr_loop_unfold [of t] split: if_splits)
      from lt have "length (tokens ?t1) - index ?t1 < length (tokens t) - index t" by simp
      from less.hyps [OF this rec] have "same_tokens ?t1 t'" .
      then show ?thesis by (simp add: same_tokens_def)
    qed
  qed
qed

lemma expectExpr_same: "expectExpr ex t = Inr (e, t') \<Longrightarrow> same_tokens t t'"
  by (auto simp: expectExpr_def bindE_def split: sum.splits if_splits option.splits
      dest: expectExpr_loop_same)

lemma acceptKeyword_same: "acceptKeyword k t = Inr (r, t') \<Longrightarrow> same_tokens t t'"
  by (auto simp: acceptKeyword_def bindE_def split: sum.splits if_splits
      dest: next_token_same)

lemma expectKeyword_same: "expectKeyword k t = Inr (r, t') \<Longrightarrow> same_tokens t t'"
  by (auto simp: expectKeyword_def bindE_def split: sum.splits option.splits
      dest: acceptKeyword_same)

lemma acceptLineMod_same: "acceptLineMod t = Inr (r, t') \<Longrightarrow> same_tokens t t'"
  by (auto simp: acceptLineMod_def bindE_def split: sum.splits if_splits
      dest: next_token_same)

lemma expectLineMod_same: "expectLineMod t = Inr (r, t') \<Longrightarrow> same_tokens t t'"
  by (auto simp: expectLineMod_def bindE_def split: sum.splits if_splits
      dest: acceptLineMod_same)

lemma expectComment_same: "expectComment t = Inr (r, t') \<Longrightarrow> same_tokens t t'"
  by (auto simp: expectComment_def bindE_def same_tokens_def split: sum.splits if_splits
      dest!: next_token_same)

lemma expectOperation_same: "expectOperation op t = Inr (r, t') \<Longrightarrow> same_tokens t t'"
  by (auto simp: expectOperation_def bindE_def split: sum.splits if_splits
      dest: next_token_same)

lemma acceptSubscript_same: "acceptSubscript ex t = Inr (r, t') \<Longrightarrow> same_tokens t t'"
  by (auto simp: acceptSubscript_def bindE_def same_tokens_def split: sum.splits if_splits
      dest!: next_token_same expectExpr_same)

lemma expectVariable_same: "expectVariable ex lno t = Inr (r, t') \<Longrightarrow> same_tokens t t'"
  by (auto simp: expectVariable_def bindE_def same_tokens_def split: sum.splits if_splits
      dest!: next_token_same acceptSubscript_same)

subsection \<open>The method parse\<close>

function parse ::
  "(token list \<Rightarrow> 'e option) \<Rightarrow> number \<Rightarrow> Tokenizer \<Rightarrow> error + 'e node \<times> Tokenizer" where
  "parse ex lno t =
     bindE (next_token t) (\<lambda>(top, t1).
       bindE (assertType top T_keyword None) (\<lambda>_.
         if lexeme top = Str ''PRINT'' then
           bindE (expectExpr ex t1) (\<lambda>(e, t2).
             bindE (acceptLineMod t2) (\<lambda>(m, t3). Inr (PRINT lno e m, t3)))
         else if lexeme top = Str ''LET'' then
           bindE (expectVariable ex lno t1) (\<lambda>(v, t2).
             bindE (expectOperation ''='' t2) (\<lambda>(_, t3).
               bindE (expectExpr ex t3) (\<lambda>(e, t4). Inr (LET lno v e, t4))))
         else if lexeme top = Str ''REM'' then
           bindE (expectComment t1) (\<lambda>(c, t2). Inr (REM lno c, t2))
         else if lexeme top = Str ''PAUSE'' then
           bindE (expectExpr ex t1) (\<lambda>(e, t2). Inr (PAUSE lno e, t2))
         else if lexeme top = Str ''INPUT'' then
           bindE (expectExpr ex t1) (\<lambda>(e, t2).
             bindE (expectLineMod t2) (\<lambda>(_, t3).
               bindE (expectVariable ex lno t3) (\<lambda>(v, t4). Inr (INPUT lno e v, t4))))
         else if lexeme top = Str ''FOR'' then
           bindE (expectVariable ex lno t1) (\<lambda>(v, t2).
             bindE (expectOperation ''='' t2) (\<lambda>(_, t3).
               bindE (expectExpr ex t3) (\<lambda>(frm, t4).
                 bindE (expectKeyword ''TO'' t4) (\<lambda>(_, t5).
                   bindE (expectExpr ex t5) (\<lambda>(to, t6).
                     bindE (acceptKeyword ''STEP'' t6) (\<lambda>(k, t7).
                       case k of
                         None \<Rightarrow> Inr (FOR lno v frm to None, t7)
                       | Some _ \<Rightarrow>
                           bindE (expectExpr ex t7) (\<lambda>(step, t8).
                             Inr (FOR lno v frm to (Some step), t8))))))))
         else if lexeme top = Str ''NEXT'' then
           bindE (expectVariable ex lno t1) (\<lambda>(v, t2). Inr (NEXT lno v, t2))
         else if lexeme top = Str ''GOTO'' then
           bindE (expectExpr ex t1) (\<lambda>(e, t2). Inr (GOTO lno e, t2))
         else if lexeme top = Str ''END'' then
           Inr (END lno, t1)
         else if lexeme top = Str ''IF'' then
           bindE (expectExpr ex t1) (\<lambda>(cond, t2).
             bindE (expectKeyword ''THEN'' t2) (\<lambda>(_, t3).
               bindE (parse ex lno t3) (\<lambda>(thn, t4).
                 bindE (acceptKeyword ''else'' t4) (\<lambda>(k, t5).
                   case k of
                     None \<Rightarrow> Inr (IF lno cond thn None, t5)
                   | Some _ \<Rightarrow>
                       bindE (parse ex lno t5) (\<lambda>(other, t6).
                         Inr (IF lno cond thn (Some other), t6))))))
         else Inl (Error (''Unexpected token '' @ lexeme_str (lexeme top)))))"
  by pat_completeness auto

lemma bindE_InrE:
  assumes "bindE m f = Inr r"
  obtains a where "m = Inr a" and "f a = Inr r"
  using assms by (cases m) (simp_all add: bindE_def)

lemmas same_dests = next_token_same expectExpr_same acceptKeyword_same expectKeyword_same
  acceptLineMod_same expectLineMod_same expectComment_same expectOperation_same
  expectVariable_same

lemma parse_same_partial:
  "parse_dom (ex, lno, t) \<Longrightarrow> parse ex lno t = Inr (n, t') \<Longrightarrow> same_tokens t t'"
proof (induction ex lno t arbitrary: n t' rule: parse.pinduct)
  case (1 ex lno t)
  from "1.prems" obtain tk t1 where nt: "next_token t = Inr (tk, t1)"
    and at: "assertType tk T_keyword None = Inr ()"
    unfolding parse.psimps [OF "1.hyps"] by (auto elim!: bindE_InrE)
  note IH1 = "1.IH"(1) [OF nt refl at]
  note IH2 = "1.IH"(2) [OF nt refl at]
  have t1: "same_tokens t t1" using nt by (rule next_token_same)
  show ?case
  proof (cases "lexeme tk = Str ''IF''")
    case False
    with "1.prems" nt at have "same_tokens t1 t'"
      unfolding parse.psimps [OF "1.hyps"]
      by (auto simp: same_tokens_def elim!: bindE_InrE split: if_splits option.splits
          dest!: same_dests)
    with t1 show ?thesis by (rule same_tokens_trans)
  next
    case True
    with "1.prems" nt at obtain cond t2 k3 t3 thn t4 k t5
      where a: "expectExpr ex t1 = Inr (cond, t2)"
        and b: "expectKeyword ''THEN'' t2 = Inr (k3, t3)"
        and c: "parse ex lno t3 = Inr (thn, t4)"
        and d: "acceptKeyword ''else'' t4 = Inr (k, t5)"
        and e: "(k = None \<and> t' = t5) \<or>
                (\<exists>x other. k = Some x \<and> parse ex lno t5 = Inr (other, t'))"
      unfolding parse.psimps [OF "1.hyps"]
      by (auto elim!: bindE_InrE split: option.splits)
    have ne: "lexeme tk \<noteq> Str ''PRINT''" "lexeme tk \<noteq> Str ''LET''"
      "lexeme tk \<noteq> Str ''REM''" "lexeme tk \<noteq> Str ''PAUSE''" "lexeme tk \<noteq> Str ''INPUT''"
      "lexeme tk \<noteq> Str ''FOR''" "lexeme tk \<noteq> Str ''NEXT''" "lexeme tk \<noteq> Str ''GOTO''"
      "lexeme tk \<noteq> Str ''END''"
      using True by simp_all
    have s4: "same_tokens t3 t4"
      using IH1 [OF ne True a refl b refl c] .
    have s5: "same_tokens t5 t'"
      using e
    proof
      assume "k = None \<and> t' = t5"
      then show ?thesis by simp
    next
      assume "\<exists>x other. k = Some x \<and> parse ex lno t5 = Inr (other, t')"
      then obtain x other where k: "k = Some x" and p: "parse ex lno t5 = Inr (other, t')"
        by blast
      show ?thesis
        using IH2 [OF ne True a refl b refl c refl d refl k p] .
    qed
    from t1 expectExpr_same [OF a] expectKeyword_same [OF b] s4 acceptKeyword_same [OF d] s5
    show ?thesis by (auto simp: same_tokens_def)
  qed
qed

lemma next_keyword_advances:
  "next_token t = Inr (tk, t1) \<Longrightarrow> assertType tk T_keyword None = Inr u \<Longrightarrow>
     tokens t1 = tokens t \<and> index t < length (tokens t) \<and> index t1 = Suc (index t)"
  by (auto simp: next_token_def assertTokenized_def assertType_def eof_def split: if_splits)

termination parse
proof (relation "measure (\<lambda>(ex, lno, t). length (tokens t) - index t)", goal_cases)
  case 1
  show ?case by simp
next
  case (2 ex lno t a tk t1 u ab cond t2 ac k3 t3)
  from 2 have "next_token t = Inr (tk, t1)" by simp
  from next_keyword_advances [OF this 2(3)] expectExpr_same [of ex t1 cond t2]
    expectKeyword_same [of "''THEN''" t2 k3 t3] 2
  show ?case by (auto simp: same_tokens_def)
next
  case (3 ex lno t a tk t1 u ab cond t2 ac k3 t3 ad thn t4 ae k t5 x)
  from 3 have "next_token t = Inr (tk, t1)" by simp
  from next_keyword_advances [OF this 3(3)] expectExpr_same [of ex t1 cond t2]
    expectKeyword_same [of "''THEN''" t2 k3 t3] parse_same_partial [of ex lno t3 thn t4]
    acceptKeyword_same [of "''else''" t4 k t5] 3
  show ?case by (auto simp: same_tokens_def)
qed

definition parseLine :: "string list \<Rightarrow> (token list \<Rightarrow> 'e option) \<Rightarrow> string \<Rightarrow> error + 'e node" where
  \<comment> \<open>\<open>Parser.parseLine\<close>; \<open>funs\<close> are the names of src/functions.js\<close>
  "parseLine funs ex line =
     bindE (tokenize funs (new_Tokenizer line)) (\<lambda>t.
       bindE (next_token t) (\<lambda>(tok, t1).
         bindE (getLineNo tok) (\<lambda>lno.
           bindE (parse ex lno t1) (\<lambda>(n, _). Inr n))))"

declare parse.simps [simp del]

fun next_times :: "nat \<Rightarrow> Tokenizer \<Rightarrow> error + token list \<times> Tokenizer" where
  \<comment> \<open>\<open>k\<close> calls of \<open>next\<close> in a row, with the tokens they return\<close>
  "next_times 0 t = Inr ([], t)"
| "next_times (Suc k) t =
     bindE (next_token t) (\<lambda>(tok, t1).
       bindE (next_times k t1) (\<lambda>(toks, t2). Inr (tok # toks, t2)))"

section \<open>Notions for the properties\<close>

fun variable_exprs :: "'e variable \<Rightarrow> 'e set" where
  "variable_exprs (Variable _ _ sub) = set_option sub"

fun exprs_of :: "'e node \<Rightarrow> 'e set" where
  \<comment> \<open>the expressions that a node holds, those of its variables and branches included\<close>
  "exprs_of (PRINT _ e _) = {e}"
| "exprs_of (LET _ v e) = variable_exprs v \<union> {e}"
| "exprs_of (REM _ _) = {}"
| "exprs_of (PAUSE _ e) = {e}"
| "exprs_of (INPUT _ e v) = {e} \<union> variable_exprs v"
| "exprs_of (FOR _ v frm to step) = variable_exprs v \<union> {frm, to} \<union> set_option step"
| "exprs_of (NEXT _ v) = variable_exprs v"
| "exprs_of (GOTO _ e) = {e}"
| "exprs_of (END _) = {}"
| "exprs_of (IF _ c thn other) = {c} \<union> exprs_of thn \<union> (\<Union>n \<in> set_option other. exprs_of n)"

definition translated :: "(token list \<Rightarrow> 'e option) \<Rightarrow> 'e \<Rightarrow> bool" where
  \<comment> \<open>the expression is what the translator returns for some tokens, one at least\<close>
  "translated ex e = (\<exists>ts. ts \<noteq> [] \<and> ex ts = Some e)"

inductive scan_position :: "string list \<Rightarrow> number \<Rightarrow> string \<Rightarrow> string \<Rightarrow> bool"
  for funs :: "string list" and lno :: number and s0 :: string where
  \<comment> \<open>the values that \<open>this.stmnt\<close> takes at the head of the loop of \<open>tokenize\<close>, from \<open>s0\<close> on\<close>
  start: "scan_position funs lno s0 s0"
| step: "scan_position funs lno s0 s \<Longrightarrow> s \<noteq> [] \<Longrightarrow>
         eat funs lno s = Inr (Some (pushed, eaten)) \<Longrightarrow>
         scan_position funs lno s0 (drop (length eaten) s)"

definition has_line_number :: "string \<Rightarrow> bool" where
  \<comment> \<open>the line begins with a number, after whitespace if any\<close>
  "has_line_number line =
     (case dropWhile is_space line of [] \<Rightarrow> False | c # _ \<Rightarrow> is_digit c)"


definition parser_error :: "(token list \<Rightarrow> 'e option) \<Rightarrow> error \<Rightarrow> bool" where
  \<comment> \<open>a host error, built from a message alone, or what the translator throws on the
      tokens of an expression\<close>
  "parser_error ex e =
     ((\<exists>msg. e = Error msg) \<or> (\<exists>msg. e = TypeError msg)
      \<or> (e = Thrown \<and> (\<exists>ts. ts \<noteq> [] \<and> ex ts = None)))"

definition fails_plainly ::
  "(token list \<Rightarrow> 'e option) \<Rightarrow> ('a \<Rightarrow> bool) \<Rightarrow> error + 'a \<Rightarrow> bool" where
  \<comment> \<open>an error, if any, is a parser error; a result satisfies \<open>Q\<close>\<close>
  "fails_plainly ex Q m = (case m of Inl e \<Rightarrow> parser_error ex e | Inr a \<Rightarrow> Q a)"


definition subscript_position :: "Tokenizer \<Rightarrow> Tokenizer \<Rightarrow> bool" where
  \<comment> \<open>\<open>expectVariable\<close>, called at the first tokenizer, reads a variable and an opening
      square bracket, and calls \<open>expectExpr\<close> at the second\<close>
  "subscript_position t u =
     (case next_token t of
        Inl _ \<Rightarrow> False
      | Inr (v, t1) \<Rightarrow>
          type v = T_variable \<and>
          (case next_token t1 of
             Inl _ \<Rightarrow> False
           | Inr (b, t2) \<Rightarrow> type b = T_operation \<and> lexeme b = Str ''['' \<and> u = t2))"

inductive operand_position ::
  "(token list \<Rightarrow> 'e option) \<Rightarrow> number \<Rightarrow> Tokenizer \<Rightarrow> Tokenizer \<Rightarrow> bool"
  for ex :: "token list \<Rightarrow> 'e option" and lno :: number where
  \<comment> \<open>\<open>parse\<close>, called at the first tokenizer, calls \<open>expectExpr\<close> at the second\<close>
  after_keyword:
    "next_token t = Inr (tk, t1) \<Longrightarrow> type tk = T_keyword \<Longrightarrow>
     lexeme tk \<in> {Str ''PRINT'', Str ''PAUSE'', Str ''INPUT'', Str ''GOTO'', Str ''IF''} \<Longrightarrow>
     operand_position ex lno t t1"
| after_equals:
    "next_token t = Inr (tk, t1) \<Longrightarrow> type tk = T_keyword \<Longrightarrow>
     lexeme tk \<in> {Str ''LET'', Str ''FOR''} \<Longrightarrow>
     expectVariable ex lno t1 = Inr (v, t2) \<Longrightarrow> expectOperation ''='' t2 = Inr (eq, t3) \<Longrightarrow>
     operand_position ex lno t t3"
| after_to:
    "next_token t = Inr (tk, t1) \<Longrightarrow> type tk = T_keyword \<Longrightarrow> lexeme tk = Str ''FOR'' \<Longrightarrow>
     expectVariable ex lno t1 = Inr (v, t2) \<Longrightarrow> expectOperation ''='' t2 = Inr (eq, t3) \<Longrightarrow>
     expectExpr ex t3 = Inr (frm, t4) \<Longrightarrow> expectKeyword ''TO'' t4 = Inr (k, t5) \<Longrightarrow>
     operand_position ex lno t t5"
| after_step:
    "next_token t = Inr (tk, t1) \<Longrightarrow> type tk = T_keyword \<Longrightarrow> lexeme tk = Str ''FOR'' \<Longrightarrow>
     expectVariable ex lno t1 = Inr (v, t2) \<Longrightarrow> expectOperation ''='' t2 = Inr (eq, t3) \<Longrightarrow>
     expectExpr ex t3 = Inr (frm, t4) \<Longrightarrow> expectKeyword ''TO'' t4 = Inr (k, t5) \<Longrightarrow>
     expectExpr ex t5 = Inr (to, t6) \<Longrightarrow> acceptKeyword ''STEP'' t6 = Inr (Some k', t7) \<Longrightarrow>
     operand_position ex lno t t7"
| in_subscript:
    "next_token t = Inr (tk, t1) \<Longrightarrow> type tk = T_keyword \<Longrightarrow>
     lexeme tk \<in> {Str ''LET'', Str ''FOR'', Str ''NEXT''} \<Longrightarrow>
     subscript_position t1 u \<Longrightarrow> operand_position ex lno t u"
| in_input_subscript:
    "next_token t = Inr (tk, t1) \<Longrightarrow> type tk = T_keyword \<Longrightarrow> lexeme tk = Str ''INPUT'' \<Longrightarrow>
     expectExpr ex t1 = Inr (e, t2) \<Longrightarrow> expectLineMod t2 = Inr (m, t3) \<Longrightarrow>
     subscript_position t3 u \<Longrightarrow> operand_position ex lno t u"
| in_then:
    "next_token t = Inr (tk, t1) \<Longrightarrow> type tk = T_keyword \<Longrightarrow> lexeme tk = Str ''IF'' \<Longrightarrow>
     expectExpr ex t1 = Inr (c, t2) \<Longrightarrow> expectKeyword ''THEN'' t2 = Inr (k, t3) \<Longrightarrow>
     operand_position ex lno t3 u \<Longrightarrow> operand_position ex lno t u"
| in_else:
    "next_token t = Inr (tk, t1) \<Longrightarrow> type tk = T_keyword \<Longrightarrow> lexeme tk = Str ''IF'' \<Longrightarrow>
     expectExpr ex t1 = Inr (c, t2) \<Longrightarrow> expectKeyword ''THEN'' t2 = Inr (k, t3) \<Longrightarrow>
     parse ex lno t3 = Inr (thn, t4) \<Longrightarrow> acceptKeyword ''else'' t4 = Inr (Some k', t5) \<Longrightarrow>
     operand_position ex lno t5 u \<Longrightarrow> operand_position ex lno t u"

definition plain_names :: "string list \<Rightarrow> bool" where
  \<comment> \<open>a registry of function names made of letters, two at least in each name\<close>
  "plain_names funs =
     (funs \<noteq> [] \<and> (\<forall>f \<in> set funs. 2 \<le> length f \<and> (\<forall>c \<in> set f. is_alpha c)))"

section \<open>Properties\<close>

subsection \<open>Evaluating the tokenizer and the parser\<close>

lemma upper_char_ascii:
  "upper_char (CHR '' '') = CHR '' ''"
  "upper_char (CHR ''!'') = CHR ''!''"
  "upper_char (CHR 0x22) = CHR 0x22"
  "upper_char (CHR ''#'') = CHR ''#''"
  "upper_char (CHR ''$'') = CHR ''$''"
  "upper_char (CHR ''%'') = CHR ''%''"
  "upper_char (CHR ''&'') = CHR ''&''"
  "upper_char (CHR 0x27) = CHR 0x27"
  "upper_char (CHR ''('') = CHR ''(''"
  "upper_char (CHR '')'') = CHR '')''"
  "upper_char (CHR ''*'') = CHR ''*''"
  "upper_char (CHR ''+'') = CHR ''+''"
  "upper_char (CHR '','') = CHR '',''"
  "upper_char (CHR ''-'') = CHR ''-''"
  "upper_char (CHR ''.'') = CHR ''.''"
  "upper_char (CHR ''/'') = CHR ''/''"
  "upper_char (CHR ''0'') = CHR ''0''"
  "upper_char (CHR ''1'') = CHR ''1''"
  "upper_char (CHR ''2'') = CHR ''2''"
  "upper_char (CHR ''3'') = CHR ''3''"
  "upper_char (CHR ''4'') = CHR ''4''"
  "upper_char (CHR ''5'') = CHR ''5''"
  "upper_char (CHR ''6'') = CHR ''6''"
  "upper_char (CHR ''7'') = CHR ''7''"
  "upper_char (CHR ''8'') = CHR ''8''"
  "upper_char (CHR ''9'') = CHR ''9''"
  "upper_char (CHR '':'') = CHR '':''"
  "upper_char (CHR '';'') = CHR '';''"
  "upper_char (CHR ''<'') = CHR ''<''"
  "upper_char (CHR ''='') = CHR ''=''"
  "upper_char (CHR ''>'') = CHR ''>''"
  "upper_char (CHR ''?'') = CHR ''?''"
  "upper_char (CHR ''@'') = CHR ''@''"
  "upper_char (CHR ''A'') = CHR ''A''"
  "upper_char (CHR ''B'') = CHR ''B''"
  "upper_char (CHR ''C'') = CHR ''C''"
  "upper_char (CHR ''D'') = CHR ''D''"
  "upper_char (CHR ''E'') = CHR ''E''"
  "upper_char (CHR ''F'') = CHR ''F''"
  "upper_char (CHR ''G'') = CHR ''G''"
  "upper_char (CHR ''H'') = CHR ''H''"
  "upper_char (CHR ''I'') = CHR ''I''"
  "upper_char (CHR ''J'') = CHR ''J''"
  "upper_char (CHR ''K'') = CHR ''K''"
  "upper_char (CHR ''L'') = CHR ''L''"
  "upper_char (CHR ''M'') = CHR ''M''"
  "upper_char (CHR ''N'') = CHR ''N''"
  "upper_char (CHR ''O'') = CHR ''O''"
  "upper_char (CHR ''P'') = CHR ''P''"
  "upper_char (CHR ''Q'') = CHR ''Q''"
  "upper_char (CHR ''R'') = CHR ''R''"
  "upper_char (CHR ''S'') = CHR ''S''"
  "upper_char (CHR ''T'') = CHR ''T''"
  "upper_char (CHR ''U'') = CHR ''U''"
  "upper_char (CHR ''V'') = CHR ''V''"
  "upper_char (CHR ''W'') = CHR ''W''"
  "upper_char (CHR ''X'') = CHR ''X''"
  "upper_char (CHR ''Y'') = CHR ''Y''"
  "upper_char (CHR ''Z'') = CHR ''Z''"
  "upper_char (CHR ''['') = CHR ''[''"
  "upper_char (CHR 0x5C) = CHR 0x5C"
  "upper_char (CHR '']'') = CHR '']''"
  "upper_char (CHR ''^'') = CHR ''^''"
  "upper_char (CHR ''_'') = CHR ''_''"
  "upper_char (CHR 0x60) = CHR 0x60"
  "upper_char (CHR ''a'') = CHR ''A''"
  "upper_char (CHR ''b'') = CHR ''B''"
  "upper_char (CHR ''c'') = CHR ''C''"
  "upper_char (CHR ''d'') = CHR ''D''"
  "upper_char (CHR ''e'') = CHR ''E''"
  "upper_char (CHR ''f'') = CHR ''F''"
  "upper_char (CHR ''g'') = CHR ''G''"
  "upper_char (CHR ''h'') = CHR ''H''"
  "upper_char (CHR ''i'') = CHR ''I''"
  "upper_char (CHR ''j'') = CHR ''J''"
  "upper_char (CHR ''k'') = CHR ''K''"
  "upper_char (CHR ''l'') = CHR ''L''"
  "upper_char (CHR ''m'') = CHR ''M''"
  "upper_char (CHR ''n'') = CHR ''N''"
  "upper_char (CHR ''o'') = CHR ''O''"
  "upper_char (CHR ''p'') = CHR ''P''"
  "upper_char (CHR ''q'') = CHR ''Q''"
  "upper_char (CHR ''r'') = CHR ''R''"
  "upper_char (CHR ''s'') = CHR ''S''"
  "upper_char (CHR ''t'') = CHR ''T''"
  "upper_char (CHR ''u'') = CHR ''U''"
  "upper_char (CHR ''v'') = CHR ''V''"
  "upper_char (CHR ''w'') = CHR ''W''"
  "upper_char (CHR ''x'') = CHR ''X''"
  "upper_char (CHR ''y'') = CHR ''Y''"
  "upper_char (CHR ''z'') = CHR ''Z''"
  "upper_char (CHR ''{'') = CHR ''{''"
  "upper_char (CHR ''|'') = CHR ''|''"
  "upper_char (CHR ''}'') = CHR ''}''"
  "upper_char (CHR ''~'') = CHR ''~''"
  by (simp_all add: upper_char_def lowers_def uppers_def)

lemma ci_prefix_simps:
  "ci_prefix [] s = True"
  "ci_prefix (k # ks) [] = False"
  "ci_prefix (k # ks) (c # cs) = (if upper_char k = upper_char c then ci_prefix ks cs else False)"
  by (auto simp: ci_prefix_def toUpperCase_def)

lemma toUpperCase_simps:
  "toUpperCase [] = []"
  "toUpperCase (c # cs) = upper_char c # toUpperCase cs"
  by (simp_all add: toUpperCase_def)

lemma upper_char_alpha: "upper_char c \<in> set uppers \<Longrightarrow> is_alpha c"
  by (auto simp: upper_char_def is_alpha_def split: option.splits
      dest: map_of_SomeD set_zip_leftD)

lemma alpha_upper_char: "is_alpha c \<Longrightarrow> upper_char c \<in> set uppers"
  unfolding upper_char_def is_alpha_def lowers_def uppers_def by auto

lemma ci_prefix_alpha:
  assumes "ci_prefix f s" and "2 \<le> length f" and "\<forall>c \<in> set f. is_alpha c"
  shows "2 \<le> length s \<and> is_alpha (s ! 0) \<and> is_alpha (s ! 1)"
proof -
  from assms(1) have len: "length f \<le> length s"
    and eq: "map upper_char (take (length f) s) = map upper_char f"
    by (auto simp: ci_prefix_def toUpperCase_def)
  have "upper_char (s ! i) = upper_char (f ! i)" if "i < 2" for i
  proof -
    from that assms(2) len have i: "i < length f" "i < length s" by auto
    then have "map upper_char (take (length f) s) ! i = upper_char (s ! i)" by simp
    moreover have "map upper_char f ! i = upper_char (f ! i)" using i by simp
    ultimately show ?thesis using eq by simp
  qed
  moreover have "is_alpha (f ! i)" if "i < 2" for i
    using that assms(2,3) by (auto simp: all_set_conv_all_nth)
  ultimately have "is_alpha (s ! i)" if "i < 2" for i
    using that alpha_upper_char upper_char_alpha by metis
  with len assms(2) show ?thesis by auto
qed

lemma match_alt_None: "\<forall>f \<in> set fs. \<not> ci_prefix f s \<Longrightarrow> match_alt fs s = None"
  by (induction fs) auto

lemma eatFunction_plain:
  assumes "plain_names funs" and "\<not> (2 \<le> length s \<and> is_alpha (s ! 0) \<and> is_alpha (s ! 1))"
  shows "eatFunction funs s = None"
proof -
  have "\<forall>f \<in> set (joined funs). \<not> ci_prefix f s"
    using assms ci_prefix_alpha by (auto simp: plain_names_def joined_def)
  then show ?thesis
    by (simp add: eatFunction_def FUN_match_def match_word_def match_alt_None)
qed

lemma eatFunction_plain_simps:
  "plain_names funs \<Longrightarrow> eatFunction funs [] = None"
  "plain_names funs \<Longrightarrow> eatFunction funs [c] = None"
  "plain_names funs \<Longrightarrow> \<not> is_alpha c \<Longrightarrow> eatFunction funs (c # s) = None"
  "plain_names funs \<Longrightarrow> \<not> is_alpha d \<Longrightarrow> eatFunction funs (c # d # s) = None"
  by (simp_all add: eatFunction_plain)

lemma plain_names_SIN: "plain_names [''SIN'']"
  by (simp add: plain_names_def is_alpha_def uppers_def)

lemma bits_le: "n < 2 ^ k \<Longrightarrow> bits n \<le> k"
proof (induction k arbitrary: n)
  case 0
  then show ?case by (simp add: bits.simps)
next
  case (Suc k)
  show ?case
  proof (cases "n = 0")
    case True
    then show ?thesis by (simp add: bits.simps)
  next
    case False
    from Suc.prems have "n div 2 < 2 ^ k" by simp
    from Suc.IH [OF this] False show ?thesis by (subst bits.simps) simp
  qed
qed

lemma round_half_even_int: "round_half_even (of_int i) = i"
  by (simp add: round_half_even_def)

lemma to_double_small:
  \<comment> \<open>the integers below \<open>2^53\<close> are doubles\<close>
  assumes "q = of_int \<lfloor>q\<rfloor>" and "0 \<le> q" and "q < 2 ^ 53"
  shows "to_double q = Finite q"
proof (cases "q = 0")
  case True
  then show ?thesis by (simp add: to_double_def)
next
  case False
  define n where "n = nat \<lfloor>q\<rfloor>"
  have q: "q = of_nat n" using assms(1,2) by (simp add: n_def)
  have n: "n < 2 ^ 53" using assms(3) unfolding q
    by (metis of_nat_less_iff of_nat_numeral of_nat_power)
  have one: "1 \<le> q" using False assms(2) q by (cases n) auto
  have "bits n \<le> 53" using n by (rule bits_le)
  then have fl: "floor_log2 q - 52 \<le> 0"
    using one by (simp add: floor_log2_def q)
  define e where "e = max (floor_log2 q - 52) (- 1074)"
  have e: "e \<le> 0" using fl by (simp add: e_def)
  have p: "pow2 e = 1 / 2 ^ nat (- e)"
    using e by (auto simp: pow2_def)
  have "q / pow2 e = of_int (int n * 2 ^ nat (- e))"
    by (simp add: p q)
  then have "round_half_even (q / pow2 e) = int n * 2 ^ nat (- e)"
    by (simp only: round_half_even_int)
  then have r: "of_int (round_half_even (q / pow2 e)) * pow2 e = q"
    by (simp add: p q)
  have "q < 2 ^ 1024" using assms(3) by (rule less_trans) simp
  then show ?thesis
    using False r by (simp add: to_double_def Let_def e_def [symmetric])
qed

lemmas lexer_eval = tokenize_def new_Tokenizer_def LINE_match_def tokenize_loop.simps eat_def
  eatKeyword_def eatQuote_def eatLogic_def eatConstant_def eatVariable_def eatNumber_def
  eatOperation_def eatLineMod_def KEY_match_def QUOTE_match_def CONST_match_def LOGIC_match_def
  VAR_match_def NUM_match_def OP_match_def LINEMOD_match_def match_word_def joined_def
  KEYWORDS_def CONSTANTS_def ci_prefix_simps toUpperCase_simps upper_char_ascii lowers_def
  uppers_def is_space_def is_digit_def is_alpha_def is_line_terminator_def spaces_def
  parseInt_def parseFloat_def digits_val_def digit_val_def dq_def bsl_def sq_def Let_def
  eatFunction_plain_simps to_double_small

lemmas parser_eval = parseLine_def next_token_def peek_def assertTokenized_def assertType_def
  getLineNo_def parse.simps expectExpr_def expectExpr_loop.simps eof_def expressionTypes_def
  acceptKeyword_def expectKeyword_def expectComment_def expectOperation_def acceptLineMod_def
  expectLineMod_def acceptSubscript_def expectVariable_def Let_def

subsection \<open>The end-of-input token\<close>

lemma tokenize_tokenized: "tokenize funs t0 = Inr t \<Longrightarrow> tokenized t"
  by (auto simp: tokenize_def Let_def split: option.splits sum.splits)

lemma next_times_at_end:
  "tokenized t \<Longrightarrow> length (tokens t) \<le> index t \<Longrightarrow> next_times k t = Inr (replicate k eof, t)"
  by (induction k) (simp_all add: next_token_def assertTokenized_def)

text \<open>
  Claim C9. Once a line is tokenized and the cursor is at or past the end of the token
  array, \<open>peek\<close> (at any offset) and \<open>next\<close> return the end-of-input token, \<open>next\<close> leaves the
  tokenizer as it is, neither raises, and any number of calls of \<open>next\<close> in a row give
  that token each time.
\<close>

theorem eof_sentinel_idempotent:
  assumes "tokenize funs t0 = Inr t" and "length (tokens t) \<le> i"
  shows "peek (t\<lparr>index := i\<rparr>) n = Inr eof
    \<and> next_token (t\<lparr>index := i\<rparr>) = Inr (eof, t\<lparr>index := i\<rparr>)
    \<and> next_times k (t\<lparr>index := i\<rparr>) = Inr (replicate k eof, t\<lparr>index := i\<rparr>)"
proof -
  have tk: "tokenized (t\<lparr>index := i\<rparr>)"
    using assms(1) by (simp add: tokenize_tokenized)
  moreover have "length (tokens (t\<lparr>index := i\<rparr>)) \<le> index (t\<lparr>index := i\<rparr>)"
    using assms(2) by simp
  ultimately have "next_times k (t\<lparr>index := i\<rparr>) = Inr (replicate k eof, t\<lparr>index := i\<rparr>)"
    by (rule next_times_at_end)
  with tk assms(2) show ?thesis
    by (simp add: peek_def next_token_def assertTokenized_def)
qed

lemma tokenize_END:
  "tokenize [] (new_Tokenizer ''10 END'') =
     Inr \<lparr>stmnt = [], tokens = [Token T_lineno (Num (Finite 10)), Token T_keyword (Str ''END'')],
          index = 0, tokenized = True, lineno = Finite 10\<rparr>"
  by (simp add: lexer_eval eatFunction_def FUN_match_def)

theorem eof_sentinel_idempotent_witness:
  "peek \<lparr>stmnt = [], tokens = [Token T_lineno (Num (Finite 10)), Token T_keyword (Str ''END'')],
          index = 2, tokenized = True, lineno = Finite 10\<rparr> 1 = Inr eof
   \<and> next_times 3 \<lparr>stmnt = [], tokens = [Token T_lineno (Num (Finite 10)), Token T_keyword (Str ''END'')],
          index = 2, tokenized = True, lineno = Finite 10\<rparr> =
      Inr ([eof, eof, eof], \<lparr>stmnt = [], tokens = [Token T_lineno (Num (Finite 10)), Token T_keyword (Str ''END'')],
          index = 2, tokenized = True, lineno = Finite 10\<rparr>)"
  using eof_sentinel_idempotent [OF tokenize_END, of 2 1 3]
  by (simp add: numeral_3_eq_3)

subsection \<open>Brackets in an expression\<close>

lemma tokenize_call_F:
  "tokenize [''F''] (new_Tokenizer ''10 LET A = F(B[1], C)'') =
     Inr \<lparr>stmnt = [],
          tokens = [Token T_lineno (Num (Finite 10)), Token T_keyword (Str ''LET''),
            Token T_variable (Str ''A''), Token T_operation (Str ''=''),
            Token T_function (Str ''F''), Token T_operation (Str ''(''),
            Token T_variable (Str ''B''), Token T_operation (Str ''[''),
            Token T_number (Num (Finite 1)), Token T_operation (Str '']''),
            Token T_operation (Str '',''), Token T_variable (Str ''C''),
            Token T_operation (Str '')'')],
          index = 0, tokenized = True, lineno = Finite 10\<rparr>"
  by (simp add: lexer_eval eatFunction_def FUN_match_def)

text \<open>
  Claim C1. With \<open>F\<close> a registered function, the line \<open>10 LET A = F(B[1], C)\<close> does not
  parse into a call of \<open>F\<close>: the scan of the expression consumes \<open>F\<close> and the opening
  parenthesis, and the increment of the constant \<open>brackets\<close> throws, whatever the
  translator does.
\<close>

theorem bracket_scan_throws:
  "parseLine [''F''] ex ''10 LET A = F(B[1], C)'' =
     Inl (TypeError ''Assignment to constant variable.'')"
  by (simp add: parser_eval tokenize_call_F)

subsection \<open>The keyword after the first expression of FOR\<close>

lemma tokenize_FOR_STEP:
  "plain_names funs \<Longrightarrow> tokenize funs (new_Tokenizer ''10 FOR I = 1 STEP 10'') =
     Inr \<lparr>stmnt = [],
          tokens = [Token T_lineno (Num (Finite 10)), Token T_keyword (Str ''FOR''),
            Token T_variable (Str ''I''), Token T_operation (Str ''=''),
            Token T_number (Num (Finite 1)), Token T_keyword (Str ''STEP''), Token T_number (Num (Finite 10))],
          index = 0, tokenized = True, lineno = Finite 10\<rparr>"
  by (simp add: lexer_eval)

text \<open>
  Claim C2. In the line \<open>10 FOR I = 1 STEP 10\<close> the keyword after the first expression
  is \<open>STEP\<close>, not \<open>TO\<close>. The parser does not fail: \<open>acceptKeyword\<close> never reads its
  argument, so \<open>expectKeyword('TO')\<close> takes the \<open>STEP\<close>, and a FOR node comes out.
\<close>

theorem for_takes_any_keyword:
  assumes "plain_names funs"
    and "ex [Token T_number (Num (Finite 1))] = Some a"
    and "ex [Token T_number (Num (Finite 10))] = Some b"
  shows "parseLine funs ex ''10 FOR I = 1 STEP 10'' =
     Inr (FOR (Finite 10) (Variable (Finite 10) (Str ''I'') None) a b None)"
  using assms by (simp add: parser_eval tokenize_FOR_STEP)

theorem for_takes_any_keyword_witness:
  "parseLine [''SIN''] Some ''10 FOR I = 1 STEP 10'' =
     Inr (FOR (Finite 10) (Variable (Finite 10) (Str ''I'') None)
            [Token T_number (Num (Finite 1))] [Token T_number (Num (Finite 10))] None)"
  using for_takes_any_keyword [OF plain_names_SIN, of Some] by simp

subsection \<open>IF, THEN and ELSE\<close>

lemma tokenize_IF_ELSE:
  "plain_names funs \<Longrightarrow>
   tokenize funs (new_Tokenizer (''10 IF A>5 THEN GOTO 100 ELSE PRINT '' @ [dq] @ ''no'' @ [dq])) =
     Inr \<lparr>stmnt = [],
          tokens = [Token T_lineno (Num (Finite 10)), Token T_keyword (Str ''IF''),
            Token T_variable (Str ''A''), Token T_operation (Str ''>''),
            Token T_number (Num (Finite 5)), Token T_keyword (Str ''THEN''),
            Token T_keyword (Str ''GOTO''), Token T_number (Num (Finite 100)),
            Token T_keyword (Str ''ELSE''), Token T_keyword (Str ''PRINT''),
            Token T_string (Str ([dq] @ ''no'' @ [dq]))],
          index = 0, tokenized = True, lineno = Finite 10\<rparr>"
  by (simp add: lexer_eval)

lemma tokenize_IF:
  "plain_names funs \<Longrightarrow>
   tokenize funs (new_Tokenizer ''10 IF A>5 THEN GOTO 100'') =
     Inr \<lparr>stmnt = [],
          tokens = [Token T_lineno (Num (Finite 10)), Token T_keyword (Str ''IF''),
            Token T_variable (Str ''A''), Token T_operation (Str ''>''),
            Token T_number (Num (Finite 5)), Token T_keyword (Str ''THEN''),
            Token T_keyword (Str ''GOTO''), Token T_number (Num (Finite 100))],
          index = 0, tokenized = True, lineno = Finite 10\<rparr>"
  by (simp add: lexer_eval)

lemma tokenize_GOTO:
  "plain_names funs \<Longrightarrow>
   tokenize funs (new_Tokenizer ''10 GOTO 100'') =
     Inr \<lparr>stmnt = [],
          tokens = [Token T_lineno (Num (Finite 10)), Token T_keyword (Str ''GOTO''),
            Token T_number (Num (Finite 100))],
          index = 0, tokenized = True, lineno = Finite 10\<rparr>"
  by (simp add: lexer_eval)

lemma tokenize_PRINT_no:
  "plain_names funs \<Longrightarrow>
   tokenize funs (new_Tokenizer (''10 PRINT '' @ [dq] @ ''no'' @ [dq])) =
     Inr \<lparr>stmnt = [],
          tokens = [Token T_lineno (Num (Finite 10)), Token T_keyword (Str ''PRINT''),
            Token T_string (Str ([dq] @ ''no'' @ [dq]))],
          index = 0, tokenized = True, lineno = Finite 10\<rparr>"
  by (simp add: lexer_eval)

text \<open>
  Claim C6. The line \<open>10 IF A>5 THEN GOTO 100 ELSE PRINT "no"\<close> parses into an IF node
  whose then branch is the GOTO node and whose else branch is the PRINT node, each the
  node that the statement gives when parsed as a line of its own; without the ELSE part
  the else branch is absent. The registry holds plain names, and the translator
  accepts the three expressions.
\<close>

theorem if_then_else_nodes:
  assumes "plain_names funs"
    and "ex [Token T_variable (Str ''A''), Token T_operation (Str ''>''),
             Token T_number (Num (Finite 5))] = Some c"
    and "ex [Token T_number (Num (Finite 100))] = Some g"
    and "ex [Token T_string (Str ([dq] @ ''no'' @ [dq]))] = Some p"
  shows "parseLine funs ex (''10 IF A>5 THEN GOTO 100 ELSE PRINT '' @ [dq] @ ''no'' @ [dq]) =
           Inr (IF (Finite 10) c (GOTO (Finite 10) g) (Some (PRINT (Finite 10) p False)))
       \<and> parseLine funs ex ''10 IF A>5 THEN GOTO 100'' = Inr (IF (Finite 10) c (GOTO (Finite 10) g) None)
       \<and> parseLine funs ex ''10 GOTO 100'' = Inr (GOTO (Finite 10) g)
       \<and> parseLine funs ex (''10 PRINT '' @ [dq] @ ''no'' @ [dq]) = Inr (PRINT (Finite 10) p False)"
proof -
  have "parseLine funs ex (''10 IF A>5 THEN GOTO 100 ELSE PRINT '' @ [dq] @ ''no'' @ [dq]) =
           Inr (IF (Finite 10) c (GOTO (Finite 10) g) (Some (PRINT (Finite 10) p False)))"
    using assms by (simp add: parser_eval tokenize_IF_ELSE [simplified])
  moreover have "parseLine funs ex ''10 IF A>5 THEN GOTO 100'' = Inr (IF (Finite 10) c (GOTO (Finite 10) g) None)"
    using assms by (simp add: parser_eval tokenize_IF)
  moreover have "parseLine funs ex ''10 GOTO 100'' = Inr (GOTO (Finite 10) g)"
    using assms by (simp add: parser_eval tokenize_GOTO)
  moreover have "parseLine funs ex (''10 PRINT '' @ [dq] @ ''no'' @ [dq]) = Inr (PRINT (Finite 10) p False)"
    using assms by (simp add: parser_eval tokenize_PRINT_no [simplified])
  ultimately show ?thesis by simp
qed

theorem if_then_else_nodes_witness:
  "parseLine [''SIN''] Some (''10 IF A>5 THEN GOTO 100 ELSE PRINT '' @ [dq] @ ''no'' @ [dq]) =
     Inr (IF (Finite 10) [Token T_variable (Str ''A''), Token T_operation (Str ''>''),
                 Token T_number (Num (Finite 5))]
            (GOTO (Finite 10) [Token T_number (Num (Finite 100))])
            (Some (PRINT (Finite 10) [Token T_string (Str ([dq] @ ''no'' @ [dq]))] False)))
   \<and> parseLine [''SIN''] Some ''10 IF A>5 THEN GOTO 100'' =
     Inr (IF (Finite 10) [Token T_variable (Str ''A''), Token T_operation (Str ''>''),
                 Token T_number (Num (Finite 5))]
            (GOTO (Finite 10) [Token T_number (Num (Finite 100))]) None)"
  using if_then_else_nodes [OF plain_names_SIN, of Some] by simp

subsection \<open>Keywords at a scan position\<close>

lemma keywords_upper: "\<forall>k \<in> set KEYWORDS. toUpperCase k = k \<and> k \<noteq> []"
  by (simp add: KEYWORDS_def toUpperCase_simps upper_char_ascii)

lemma keywords_incomparable:
  "\<forall>a \<in> set KEYWORDS. \<forall>b \<in> set KEYWORDS. a \<noteq> b \<longrightarrow> take (length a) b \<noteq> a"
  by (simp add: KEYWORDS_def)

lemma toUpperCase_length [simp]: "length (toUpperCase s) = length s"
  by (simp add: toUpperCase_def)

lemma toUpperCase_append: "toUpperCase (a @ b) = toUpperCase a @ toUpperCase b"
  by (simp add: toUpperCase_def)

lemma toUpperCase_take: "toUpperCase (take n s) = take n (toUpperCase s)"
  by (simp add: toUpperCase_def take_map)

lemma match_alt_first:
  assumes "K \<in> set ks" and "ci_prefix K s" and "\<forall>k \<in> set ks. k \<noteq> K \<longrightarrow> \<not> ci_prefix k s"
  shows "match_alt ks s = Some (take (length K) s)"
  using assms by (induction ks) auto

lemma match_alt_keyword:
  assumes K: "K \<in> set KEYWORDS" and w: "toUpperCase w = K"
  shows "match_alt KEYWORDS (w @ rest) = Some w"
proof -
  have len: "length w = length K" using w [symmetric] by simp
  have up: "toUpperCase K = K" using K keywords_upper by blast
  have "ci_prefix K (w @ rest)"
    by (simp add: ci_prefix_def len [symmetric] w up)
  moreover have "\<not> ci_prefix k (w @ rest)" if k: "k \<in> set KEYWORDS" and ne: "k \<noteq> K" for k
  proof
    assume "ci_prefix k (w @ rest)"
    then have "take (length k) (K @ toUpperCase rest) = k"
      using k keywords_upper
      by (auto simp: ci_prefix_def toUpperCase_take toUpperCase_append w len)
    then have "take (length k) K = k \<or> take (length K) k = K"
      by (cases "length k \<le> length K") (auto simp: append_eq_conv_conj)
    with keywords_incomparable K k ne show False by metis
  qed
  ultimately have "match_alt KEYWORDS (w @ rest) = Some (take (length K) (w @ rest))"
    using K by (intro match_alt_first) auto
  then show ?thesis by (simp add: len [symmetric])
qed

lemma drop_spaces: "drop (length (spaces s)) s = dropWhile is_space s"
  by (simp add: spaces_def dropWhile_eq_drop)

lemma eatKeyword_keyword:
  assumes "K \<in> set KEYWORDS" and "toUpperCase w = K"
  shows "eatKeyword (w @ rest) =
     (if K = ''REM''
      then Some ([Token T_keyword (Str K), Token T_comment (Str (dropWhile is_space rest))],
                 w @ rest)
      else Some ([Token T_keyword (Str K)], w @ spaces rest))"
proof -
  have "w \<noteq> []" using assms keywords_upper by (auto simp: toUpperCase_def)
  then show ?thesis
    using match_alt_keyword [OF assms, of rest] assms(2)
    by (simp add: eatKeyword_def KEY_match_def match_word_def joined_def KEYWORDS_def drop_spaces)
qed

lemma tokenize_loop_keyword:
  assumes "K \<in> set KEYWORDS" and "toUpperCase w = K"
  shows "tokenize_loop funs lno (w @ rest) toks =
     (if K = ''REM''
      then Inr (toks @ [Token T_keyword (Str K), Token T_comment (Str (dropWhile is_space rest))])
      else tokenize_loop funs lno (dropWhile is_space rest) (toks @ [Token T_keyword (Str K)]))"
proof -
  have ne: "w \<noteq> []" using assms keywords_upper by (auto simp: toUpperCase_def)
  have eat: "eat funs lno (w @ rest) =
     Inr (if K = ''REM''
      then Some ([Token T_keyword (Str K), Token T_comment (Str (dropWhile is_space rest))],
                 w @ rest)
      else Some ([Token T_keyword (Str K)], w @ spaces rest))"
    by (simp add: eat_def eatKeyword_keyword [OF assms])
  show ?thesis
  proof (cases "K = ''REM''")
    case True
    with eat ne show ?thesis
      by (subst tokenize_loop.simps) (simp add: tokenize_loop.simps [of _ _ "[]"])
  next
    case False
    with eat ne show ?thesis
      by (subst tokenize_loop.simps) (simp add: drop_spaces)
  qed
qed

lemma tokenizeLine_loop:
  assumes "LINE_match line = Some (d, m0)"
  shows "tokenizeLine funs line =
     tokenize_loop funs (parseInt d) (drop (length m0) line) [Token T_lineno (Num (parseInt d))]"
  using assms
  by (simp add: tokenizeLine_def tokenize_def new_Tokenizer_def Let_def split: sum.splits)

lemma keywords_start: "\<forall>k \<in> set KEYWORDS. hd k \<in> set uppers"
  by (simp add: KEYWORDS_def uppers_def)

lemma alpha_not_space_digit: "is_alpha c \<Longrightarrow> \<not> is_space c \<and> \<not> is_digit c"
  by (auto simp: is_alpha_def is_space_def is_digit_def lowers_def uppers_def)

lemma LINE_match_10_keyword:
  assumes "K \<in> set KEYWORDS" and "toUpperCase w = K"
  shows "LINE_match (''10 '' @ w @ rest) = Some (''10'', ''10 '')"
proof -
  from assms keywords_upper have "w \<noteq> []" by (auto simp: toUpperCase_def)
  then obtain a w' where w: "w = a # w'" by (cases w) auto
  with assms have "upper_char a = hd K" by (auto simp: toUpperCase_def)
  with assms(1) keywords_start have "upper_char a \<in> set uppers" by auto
  then have "is_alpha a" by (rule upper_char_alpha)
  then have "\<not> is_space a \<and> \<not> is_digit a" by (rule alpha_not_space_digit)
  then show ?thesis
    by (simp add: LINE_match_def spaces_def is_space_def is_digit_def w)
qed

lemma parseInt_10: "parseInt ''10'' = Finite 10"
  by (simp add: parseInt_def is_digit_def digits_val_def digit_val_def to_double_small)

text \<open>
  Claim C10. Where the text at a scan position starts with the letters of a keyword, in
  any letter case, the tokenizer pushes the keyword token and goes on with what follows
  the keyword and the whitespace after it, whatever that is: no delimiter is needed.
  After REM what follows is the comment token, and nothing more is read. So it is for
  a line: where the text after the line number starts with the letters of a keyword,
  the tokens of the line are the line number, the keyword, and the tokens of what
  follows the keyword, and the line fails only where what follows does. The line
  \<open>10 PRINTX\<close> gives the keyword PRINT and the variable X.
\<close>

theorem keyword_needs_no_delimiter:
  assumes "K \<in> set KEYWORDS" and "toUpperCase w = K"
  shows "tokenize_loop funs lno (w @ rest) toks =
       (if K = ''REM''
        then Inr (toks @ [Token T_keyword (Str K), Token T_comment (Str (dropWhile is_space rest))])
        else tokenize_loop funs lno (dropWhile is_space rest) (toks @ [Token T_keyword (Str K)]))
     \<and> (LINE_match line = Some (d, m0) \<and> drop (length m0) line = w @ rest \<longrightarrow>
          tokenizeLine funs line =
            (if K = ''REM''
             then Inr [Token T_lineno (Num (parseInt d)), Token T_keyword (Str K),
                       Token T_comment (Str (dropWhile is_space rest))]
             else tokenize_loop funs (parseInt d) (dropWhile is_space rest)
                    [Token T_lineno (Num (parseInt d)), Token T_keyword (Str K)]))
     \<and> tokenizeLine funs (''10 '' @ w @ rest) =
          (if K = ''REM''
           then Inr [Token T_lineno (Num (Finite 10)), Token T_keyword (Str K),
                     Token T_comment (Str (dropWhile is_space rest))]
           else tokenize_loop funs (Finite 10) (dropWhile is_space rest)
                  [Token T_lineno (Num (Finite 10)), Token T_keyword (Str K)])"
proof (intro conjI impI)
  show "tokenize_loop funs lno (w @ rest) toks =
       (if K = ''REM''
        then Inr (toks @ [Token T_keyword (Str K), Token T_comment (Str (dropWhile is_space rest))])
        else tokenize_loop funs lno (dropWhile is_space rest) (toks @ [Token T_keyword (Str K)]))"
    using assms by (rule tokenize_loop_keyword)
next
  assume "LINE_match line = Some (d, m0) \<and> drop (length m0) line = w @ rest"
  then show "tokenizeLine funs line =
            (if K = ''REM''
             then Inr [Token T_lineno (Num (parseInt d)), Token T_keyword (Str K),
                       Token T_comment (Str (dropWhile is_space rest))]
             else tokenize_loop funs (parseInt d) (dropWhile is_space rest)
                    [Token T_lineno (Num (parseInt d)), Token T_keyword (Str K)])"
    using tokenize_loop_keyword [OF assms, of funs "parseInt d" rest
        "[Token T_lineno (Num (parseInt d))]"]
    by (simp add: tokenizeLine_loop)
next
  have "tokenizeLine funs (''10 '' @ w @ rest) =
      tokenize_loop funs (Finite 10) (w @ rest) [Token T_lineno (Num (Finite 10))]"
    using tokenizeLine_loop [OF LINE_match_10_keyword [OF assms], of funs rest]
    by (simp add: parseInt_10)
  then show "tokenizeLine funs (''10 '' @ w @ rest) =
          (if K = ''REM''
           then Inr [Token T_lineno (Num (Finite 10)), Token T_keyword (Str K),
                     Token T_comment (Str (dropWhile is_space rest))]
           else tokenize_loop funs (Finite 10) (dropWhile is_space rest)
                  [Token T_lineno (Num (Finite 10)), Token T_keyword (Str K)])"
    using tokenize_loop_keyword [OF assms, of funs "Finite 10" rest
        "[Token T_lineno (Num (Finite 10))]"]
    by simp
qed

theorem keyword_needs_no_delimiter_witness:
  "tokenizeLine [''SIN''] ''10 PRINTX'' =
     Inr [Token T_lineno (Num (Finite 10)), Token T_keyword (Str ''PRINT''),
          Token T_variable (Str ''X'')]
   \<and> tokenizeLine [''SIN''] ''10 forI=1to5'' =
     Inr [Token T_lineno (Num (Finite 10)), Token T_keyword (Str ''FOR''),
          Token T_variable (Str ''I''), Token T_operation (Str ''=''),
          Token T_number (Num (Finite 1)), Token T_keyword (Str ''TO''),
          Token T_number (Num (Finite 5))]"
proof -
  have "tokenizeLine [''SIN''] (''10 '' @ ''PRINT'' @ ''X'') =
      tokenize_loop [''SIN''] (Finite 10) ''X''
        [Token T_lineno (Num (Finite 10)), Token T_keyword (Str ''PRINT'')]"
    using keyword_needs_no_delimiter [of "''PRINT''" "''PRINT''" "[''SIN'']" _ "''X''" _
        "''10 PRINTX''" "''10''" "''10 ''"]
    by (simp add: KEYWORDS_def toUpperCase_simps upper_char_ascii is_space_def)
  also have "\<dots> = Inr [Token T_lineno (Num (Finite 10)), Token T_keyword (Str ''PRINT''),
      Token T_variable (Str ''X'')]"
    using plain_names_SIN by (simp add: lexer_eval)
  finally have a: "tokenizeLine [''SIN''] ''10 PRINTX'' =
     Inr [Token T_lineno (Num (Finite 10)), Token T_keyword (Str ''PRINT''),
          Token T_variable (Str ''X'')]" by simp
  have "tokenizeLine [''SIN''] (''10 '' @ ''for'' @ ''I=1to5'') =
      tokenize_loop [''SIN''] (Finite 10) ''I=1to5''
        [Token T_lineno (Num (Finite 10)), Token T_keyword (Str ''FOR'')]"
    using keyword_needs_no_delimiter [of "''FOR''" "''for''" "[''SIN'']" _ "''I=1to5''"]
    by (simp add: KEYWORDS_def toUpperCase_simps upper_char_ascii is_space_def)
  also have "\<dots> = Inr [Token T_lineno (Num (Finite 10)), Token T_keyword (Str ''FOR''),
          Token T_variable (Str ''I''), Token T_operation (Str ''=''),
          Token T_number (Num (Finite 1)), Token T_keyword (Str ''TO''),
          Token T_number (Num (Finite 5))]"
    using plain_names_SIN by (simp add: lexer_eval)
  finally have b: "tokenizeLine [''SIN''] ''10 forI=1to5'' =
     Inr [Token T_lineno (Num (Finite 10)), Token T_keyword (Str ''FOR''),
          Token T_variable (Str ''I''), Token T_operation (Str ''=''),
          Token T_number (Num (Finite 1)), Token T_keyword (Str ''TO''),
          Token T_number (Num (Finite 5))]" by simp
  from a b show ?thesis by simp
qed

subsection \<open>Comments\<close>

lemma upper_R_not_space: "upper_char a = CHR ''R'' \<Longrightarrow> \<not> is_space a \<and> \<not> is_digit a"
  by (auto simp: is_space_def is_digit_def upper_char_def lowers_def uppers_def)

lemma tokenize_REM:
  assumes "toUpperCase w = ''REM''"
  shows "tokenize funs (new_Tokenizer (''10 '' @ w @ rest)) =
     Inr \<lparr>stmnt = [],
          tokens = [Token T_lineno (Num (Finite 10)), Token T_keyword (Str ''REM''),
            Token T_comment (Str (dropWhile is_space rest))],
          index = 0, tokenized = True, lineno = Finite 10\<rparr>"
proof -
  from assms obtain a w' where w: "w = a # w'" and a: "upper_char a = CHR ''R''"
    by (auto simp: toUpperCase_def)
  have line: "LINE_match (''10 '' @ w @ rest) = Some (''10'', ''10 '')"
    using upper_R_not_space [OF a]
    by (simp add: LINE_match_def spaces_def is_space_def is_digit_def w)
  have K: "''REM'' \<in> set KEYWORDS" by (simp add: KEYWORDS_def)
  show ?thesis
    using tokenize_loop_keyword [OF K assms, of funs "Finite 10" rest "[Token T_lineno (Num (Finite 10))]"]
    by (simp add: tokenize_def new_Tokenizer_def line [simplified] parseInt_def is_digit_def
        digits_val_def digit_val_def to_double_small Let_def)
qed

text \<open>
  Claim C5. Where the text at a scan position starts with REM, in any letter case, the
  tokenizer pushes the keyword and one comment token holding the rest of the line after
  the whitespace that follows the keyword, and stops. A line \<open>10 REM ...\<close> parses into
  the REM node of that text, whatever the text holds; for \<open>10 REM this is a comment\<close>
  the text is \<open>this is a comment\<close>.
\<close>

theorem rem_takes_rest_of_line:
  assumes "toUpperCase w = ''REM''"
  shows "tokenize_loop funs lno (w @ rest) toks =
           Inr (toks @ [Token T_keyword (Str ''REM''),
                        Token T_comment (Str (dropWhile is_space rest))])
       \<and> tokenizeLine funs (''10 '' @ w @ rest) =
           Inr [Token T_lineno (Num (Finite 10)), Token T_keyword (Str ''REM''),
                Token T_comment (Str (dropWhile is_space rest))]
       \<and> parseLine funs ex (''10 '' @ w @ rest) = Inr (REM (Finite 10) (Str (dropWhile is_space rest)))"
proof -
  have K: "''REM'' \<in> set KEYWORDS" by (simp add: KEYWORDS_def)
  have "tokenize_loop funs lno (w @ rest) toks =
           Inr (toks @ [Token T_keyword (Str ''REM''),
                        Token T_comment (Str (dropWhile is_space rest))])"
    using tokenize_loop_keyword [OF K assms] by simp
  moreover have "tokenizeLine funs (''10 '' @ w @ rest) =
           Inr [Token T_lineno (Num (Finite 10)), Token T_keyword (Str ''REM''),
                Token T_comment (Str (dropWhile is_space rest))]"
    by (simp add: tokenizeLine_def tokenize_REM [OF assms, simplified])
  moreover have "parseLine funs ex (''10 '' @ w @ rest) =
      Inr (REM (Finite 10) (Str (dropWhile is_space rest)))"
    by (simp add: parser_eval tokenize_REM [OF assms, simplified])
  ultimately show ?thesis by simp
qed

theorem rem_takes_rest_of_line_witness:
  "parseLine [''SIN''] Some ''10 REM this is a comment'' = Inr (REM (Finite 10) (Str ''this is a comment''))
   \<and> tokenizeLine [''SIN''] ''10 rem IF A = 1 THEN PRINT'' =
       Inr [Token T_lineno (Num (Finite 10)), Token T_keyword (Str ''REM''),
            Token T_comment (Str ''IF A = 1 THEN PRINT'')]"
proof -
  have "parseLine [''SIN''] Some (''10 '' @ ''REM'' @ '' this is a comment'') =
      Inr (REM (Finite 10) (Str (dropWhile is_space '' this is a comment'')))"
    using rem_takes_rest_of_line [of "''REM''" "[''SIN'']" "Finite 0" "'' this is a comment''" "[]" Some]
    by (simp add: toUpperCase_simps upper_char_ascii)
  moreover have "tokenizeLine [''SIN''] (''10 '' @ ''rem'' @ '' IF A = 1 THEN PRINT'') =
      Inr [Token T_lineno (Num (Finite 10)), Token T_keyword (Str ''REM''),
           Token T_comment (Str (dropWhile is_space '' IF A = 1 THEN PRINT''))]"
    using rem_takes_rest_of_line [of "''rem''" "[''SIN'']" "Finite 0" "'' IF A = 1 THEN PRINT''" "[]" Some]
    by (simp add: toUpperCase_simps upper_char_ascii)
  ultimately show ?thesis by (simp add: is_space_def)
qed

subsection \<open>Empty expressions\<close>

lemma expectExpr_translated: "expectExpr ex t = Inr (e, t') \<Longrightarrow> translated ex e"
  by (auto simp: expectExpr_def translated_def elim!: bindE_InrE
      split: if_splits option.splits)

lemma acceptSubscript_translated:
  "acceptSubscript ex t = Inr (Some e, t') \<Longrightarrow> translated ex e"
  by (auto simp: acceptSubscript_def elim!: bindE_InrE split: if_splits
      dest: expectExpr_translated)

lemma expectVariable_translated:
  "expectVariable ex lno t = Inr (v, t') \<Longrightarrow> e \<in> variable_exprs v \<Longrightarrow> translated ex e"
  by (auto simp: expectVariable_def elim!: bindE_InrE dest: acceptSubscript_translated)

lemma parse_translated:
  "parse ex lno t = Inr (n, t') \<Longrightarrow> e \<in> exprs_of n \<Longrightarrow> translated ex e"
proof (induction ex lno t arbitrary: n t' e rule: parse.induct)
  case (1 ex lno t)
  from "1.prems"(1) obtain tk t1 where nt: "next_token t = Inr (tk, t1)"
    and at: "assertType tk T_keyword None = Inr ()"
    unfolding parse.simps [of ex lno t] by (auto elim!: bindE_InrE)
  note IH1 = "1.IH"(1) [OF nt refl at]
  note IH2 = "1.IH"(2) [OF nt refl at]
  show ?case
  proof (cases "lexeme tk = Str ''IF''")
    case False
    with "1.prems" nt at show ?thesis
      unfolding parse.simps [of ex lno t]
      by (auto elim!: bindE_InrE split: if_splits option.splits
          intro: expectExpr_translated expectVariable_translated)
         (blast intro: expectExpr_translated expectVariable_translated)+
  next
    case True
    with "1.prems"(1) nt at obtain cond t2 k3 t3 thn t4 k t5
      where a: "expectExpr ex t1 = Inr (cond, t2)"
        and b: "expectKeyword ''THEN'' t2 = Inr (k3, t3)"
        and c: "parse ex lno t3 = Inr (thn, t4)"
        and d: "acceptKeyword ''else'' t4 = Inr (k, t5)"
        and e: "(k = None \<and> n = IF lno cond thn None) \<or>
                (\<exists>x other t6. k = Some x \<and> parse ex lno t5 = Inr (other, t6)
                   \<and> n = IF lno cond thn (Some other))"
      unfolding parse.simps [of ex lno t]
      by (auto elim!: bindE_InrE split: option.splits)
    have ne: "lexeme tk \<noteq> Str ''PRINT''" "lexeme tk \<noteq> Str ''LET''"
      "lexeme tk \<noteq> Str ''REM''" "lexeme tk \<noteq> Str ''PAUSE''" "lexeme tk \<noteq> Str ''INPUT''"
      "lexeme tk \<noteq> Str ''FOR''" "lexeme tk \<noteq> Str ''NEXT''" "lexeme tk \<noteq> Str ''GOTO''"
      "lexeme tk \<noteq> Str ''END''"
      using True by simp_all
    have thn: "translated ex x" if "x \<in> exprs_of thn" for x
      using IH1 [OF ne True a refl b refl c that] .
    from e show ?thesis
    proof
      assume "k = None \<and> n = IF lno cond thn None"
      with "1.prems"(2) thn expectExpr_translated [OF a] show ?thesis by auto
    next
      assume "\<exists>x other t6. k = Some x \<and> parse ex lno t5 = Inr (other, t6)
          \<and> n = IF lno cond thn (Some other)"
      then obtain x other t6 where k: "k = Some x"
        and p: "parse ex lno t5 = Inr (other, t6)" and n: "n = IF lno cond thn (Some other)"
        by blast
      have "translated ex y" if "y \<in> exprs_of other" for y
        using IH2 [OF ne True a refl b refl c refl d refl k p that] .
      with "1.prems"(2) thn expectExpr_translated [OF a] n show ?thesis by auto
    qed
  qed
qed

lemma tokenize_LET_empty:
  "plain_names funs \<Longrightarrow> tokenize funs (new_Tokenizer ''10 LET A = '') =
     Inr \<lparr>stmnt = [],
          tokens = [Token T_lineno (Num (Finite 10)), Token T_keyword (Str ''LET''),
            Token T_variable (Str ''A''), Token T_operation (Str ''='')],
          index = 0, tokenized = True, lineno = Finite 10\<rparr>"
  by (simp add: lexer_eval)

lemma expectExpr_empty:
  "expectExpr_loop u [] = Inr ([], u') \<Longrightarrow> expectExpr ex u = Inl (Error ''Expected expression'')"
  by (simp add: expectExpr_def)

lemma assertType_keyword: "type tk = T_keyword \<Longrightarrow> assertType tk T_keyword None = Inr ()"
  by (simp add: assertType_def)

lemma next_token_peek: "next_token t = Inr (b, u) \<Longrightarrow> peek t 0 = Inr b"
  by (auto simp: next_token_def peek_def assertTokenized_def split: if_splits)

lemma expectVariable_empty_subscript:
  assumes "subscript_position t u" and "expectExpr_loop u [] = Inr ([], u')"
  shows "expectVariable ex lno t = Inl (Error ''Expected expression'')"
proof -
  from assms(1) obtain v t1 where a: "next_token t = Inr (v, t1)" "type v = T_variable"
    and r: "case next_token t1 of Inl _ \<Rightarrow> False
            | Inr (b, t2) \<Rightarrow> type b = T_operation \<and> lexeme b = Str ''['' \<and> u = t2"
    by (cases "next_token t") (auto simp: subscript_position_def)
  from r obtain b where b: "next_token t1 = Inr (b, u)" "type b = T_operation"
    "lexeme b = Str ''[''"
    by (cases "next_token t1") auto
  from b(1) have pk: "peek t1 0 = Inr b" by (rule next_token_peek)
  have "acceptSubscript ex t1 = Inl (Error ''Expected expression'')"
    using pk b expectExpr_empty [OF assms(2), of ex]
    by (simp add: acceptSubscript_def assertType_def)
  with a show ?thesis
    by (simp add: expectVariable_def assertType_def)
qed

lemma parse_keyword:
  assumes "next_token t = Inr (tk, t1)" and "type tk = T_keyword"
  shows "parse ex lno t =
         (if lexeme tk = Str ''PRINT'' then
           bindE (expectExpr ex t1) (\<lambda>(e, t2).
             bindE (acceptLineMod t2) (\<lambda>(m, t3). Inr (PRINT lno e m, t3)))
         else if lexeme tk = Str ''LET'' then
           bindE (expectVariable ex lno t1) (\<lambda>(v, t2).
             bindE (expectOperation ''='' t2) (\<lambda>(_, t3).
               bindE (expectExpr ex t3) (\<lambda>(e, t4). Inr (LET lno v e, t4))))
         else if lexeme tk = Str ''REM'' then
           bindE (expectComment t1) (\<lambda>(c, t2). Inr (REM lno c, t2))
         else if lexeme tk = Str ''PAUSE'' then
           bindE (expectExpr ex t1) (\<lambda>(e, t2). Inr (PAUSE lno e, t2))
         else if lexeme tk = Str ''INPUT'' then
           bindE (expectExpr ex t1) (\<lambda>(e, t2).
             bindE (expectLineMod t2) (\<lambda>(_, t3).
               bindE (expectVariable ex lno t3) (\<lambda>(v, t4). Inr (INPUT lno e v, t4))))
         else if lexeme tk = Str ''FOR'' then
           bindE (expectVariable ex lno t1) (\<lambda>(v, t2).
             bindE (expectOperation ''='' t2) (\<lambda>(_, t3).
               bindE (expectExpr ex t3) (\<lambda>(frm, t4).
                 bindE (expectKeyword ''TO'' t4) (\<lambda>(_, t5).
                   bindE (expectExpr ex t5) (\<lambda>(to, t6).
                     bindE (acceptKeyword ''STEP'' t6) (\<lambda>(k, t7).
                       case k of
                         None \<Rightarrow> Inr (FOR lno v frm to None, t7)
                       | Some _ \<Rightarrow>
                           bindE (expectExpr ex t7) (\<lambda>(step, t8).
                             Inr (FOR lno v frm to (Some step), t8))))))))
         else if lexeme tk = Str ''NEXT'' then
           bindE (expectVariable ex lno t1) (\<lambda>(v, t2). Inr (NEXT lno v, t2))
         else if lexeme tk = Str ''GOTO'' then
           bindE (expectExpr ex t1) (\<lambda>(e, t2). Inr (GOTO lno e, t2))
         else if lexeme tk = Str ''END'' then
           Inr (END lno, t1)
         else if lexeme tk = Str ''IF'' then
           bindE (expectExpr ex t1) (\<lambda>(cond, t2).
             bindE (expectKeyword ''THEN'' t2) (\<lambda>(_, t3).
               bindE (parse ex lno t3) (\<lambda>(thn, t4).
                 bindE (acceptKeyword ''else'' t4) (\<lambda>(k, t5).
                   case k of
                     None \<Rightarrow> Inr (IF lno cond thn None, t5)
                   | Some _ \<Rightarrow>
                       bindE (parse ex lno t5) (\<lambda>(other, t6).
                         Inr (IF lno cond thn (Some other), t6))))))
         else Inl (Error (''Unexpected token '' @ lexeme_str (lexeme tk))))"
  apply (subst parse.simps)
  apply (simp only: assms(1) bindE_simps prod.case assertType_keyword [OF assms(2)])
  done

lemma parse_empty_operand:
  assumes "operand_position ex lno t u" and "expectExpr_loop u [] = Inr ([], u')"
  shows "parse ex lno t = Inl (Error ''Expected expression'')"
  using assms
proof (induction rule: operand_position.induct)
  case (after_keyword t tk t1)
  from after_keyword(3) expectExpr_empty [OF after_keyword(4), of ex] show ?case
    unfolding parse_keyword [OF after_keyword(1,2)] by auto
next
  case (after_equals t tk t1 v t2 eq t3)
  from after_equals(3-5) expectExpr_empty [OF after_equals(6), of ex] show ?case
    unfolding parse_keyword [OF after_equals(1,2)] by auto
next
  case (after_to t tk t1 v t2 eq t3 frm t4 k t5)
  from after_to(3-7) expectExpr_empty [OF after_to(8), of ex] show ?case
    unfolding parse_keyword [OF after_to(1,2)] by simp
next
  case (after_step t tk t1 v t2 eq t3 frm t4 k t5 to t6 k' t7)
  from after_step(3-9) expectExpr_empty [OF after_step(10), of ex] show ?case
    unfolding parse_keyword [OF after_step(1,2)] by simp
next
  case (in_subscript t tk t1 u)
  from in_subscript(3) expectVariable_empty_subscript [OF in_subscript(4,5), of ex lno]
  show ?case
    unfolding parse_keyword [OF in_subscript(1,2)] by auto
next
  case (in_input_subscript t tk t1 e t2 m t3 u)
  from in_input_subscript(3-5)
    expectVariable_empty_subscript [OF in_input_subscript(6,7), of ex lno]
  show ?case
    unfolding parse_keyword [OF in_input_subscript(1,2)] by simp
next
  case (in_then t tk t1 c t2 k t3 u)
  from in_then(3-5) in_then.IH [OF in_then.prems] show ?case
    unfolding parse_keyword [OF in_then(1,2)] by simp
next
  case (in_else t tk t1 c t2 k t3 thn t4 k' t5 u)
  from in_else(3-7) in_else.IH [OF in_else.prems] show ?case
    unfolding parse_keyword [OF in_else(1,2)] by simp
qed

lemma tokenize_PAUSE_empty:
  "plain_names funs \<Longrightarrow> tokenize funs (new_Tokenizer ''10 PAUSE'') =
     Inr \<lparr>stmnt = [],
          tokens = [Token T_lineno (Num (Finite 10)), Token T_keyword (Str ''PAUSE'')],
          index = 0, tokenized = True, lineno = Finite 10\<rparr>"
  by (simp add: lexer_eval)

lemma tokenize_FOR_TO_empty:
  "plain_names funs \<Longrightarrow> tokenize funs (new_Tokenizer ''10 FOR I = 1 TO'') =
     Inr \<lparr>stmnt = [],
          tokens = [Token T_lineno (Num (Finite 10)), Token T_keyword (Str ''FOR''),
            Token T_variable (Str ''I''), Token T_operation (Str ''=''),
            Token T_number (Num (Finite 1)), Token T_keyword (Str ''TO'')],
          index = 0, tokenized = True, lineno = Finite 10\<rparr>"
  by (simp add: lexer_eval)

text \<open>
  Claim C4. A scan that collects no token makes \<open>expectExpr\<close> throw: the translator is
  not called. Wherever \<open>parse\<close> comes to call \<open>expectExpr\<close> (after PRINT, PAUSE, INPUT, GOTO
  and IF, after the \<open>=\<close> of LET and FOR, after the TO and the STEP of FOR, after the
  opening bracket of a subscript, and at those places in the branches of an IF) and the
  scan there collects no token, \<open>parse\<close> fails with the message \<open>Expected expression\<close>
  and gives no node. Every expression in a node that \<open>parse\<close> returns is therefore what
  the translator gave for one token at least (the step of a FOR without STEP is absent,
  not an empty expression). The lines \<open>10 LET A = \<close>, \<open>10 PAUSE\<close> and \<open>10 FOR I = 1 TO\<close>
  fail with that message.
\<close>

theorem empty_expression_fails:
  "(expectExpr_loop t [] = Inr ([], t1) \<longrightarrow> expectExpr ex t = Inl (Error ''Expected expression''))
   \<and> (operand_position ex lno p q \<longrightarrow> expectExpr_loop q [] = Inr ([], q') \<longrightarrow>
        parse ex lno p = Inl (Error ''Expected expression''))
   \<and> (parse ex lno u = Inr (n, u') \<longrightarrow> (\<forall>e \<in> exprs_of n. translated ex e))
   \<and> (plain_names funs \<longrightarrow>
        parseLine funs ex ''10 LET A = '' = Inl (Error ''Expected expression'')
        \<and> parseLine funs ex ''10 PAUSE'' = Inl (Error ''Expected expression'')
        \<and> (ex [Token T_number (Num (Finite 1))] \<noteq> None \<longrightarrow>
             parseLine funs ex ''10 FOR I = 1 TO'' = Inl (Error ''Expected expression'')))"
proof (intro conjI impI)
  assume "expectExpr_loop t [] = Inr ([], t1)"
  then show "expectExpr ex t = Inl (Error ''Expected expression'')"
    by (rule expectExpr_empty)
next
  assume "operand_position ex lno p q" and "expectExpr_loop q [] = Inr ([], q')"
  then show "parse ex lno p = Inl (Error ''Expected expression'')"
    by (rule parse_empty_operand)
next
  assume "parse ex lno u = Inr (n, u')"
  then show "\<forall>e \<in> exprs_of n. translated ex e"
    by (auto intro: parse_translated)
next
  assume "plain_names funs"
  then show "parseLine funs ex ''10 LET A = '' = Inl (Error ''Expected expression'')"
    by (simp add: parser_eval tokenize_LET_empty)
next
  assume "plain_names funs"
  then show "parseLine funs ex ''10 PAUSE'' = Inl (Error ''Expected expression'')"
    by (simp add: parser_eval tokenize_PAUSE_empty)
next
  assume "plain_names funs" and "ex [Token T_number (Num (Finite 1))] \<noteq> None"
  then show "parseLine funs ex ''10 FOR I = 1 TO'' = Inl (Error ''Expected expression'')"
    by (auto simp: parser_eval tokenize_FOR_TO_empty)
qed

theorem empty_expression_fails_witness:
  "parse Some (Finite 10)
     \<lparr>stmnt = [], tokens = [Token T_keyword (Str ''PAUSE'')],
      index = 0, tokenized = True, lineno = Finite 10\<rparr> = Inl (Error ''Expected expression'')
   \<and> expectExpr Some
     \<lparr>stmnt = [], tokens = [Token T_keyword (Str ''PAUSE'')],
      index = 1, tokenized = True, lineno = Finite 10\<rparr> = Inl (Error ''Expected expression'')
   \<and> parseLine [''SIN''] Some ''10 LET A = '' = Inl (Error ''Expected expression'')
   \<and> parseLine [''SIN''] Some ''10 PAUSE'' = Inl (Error ''Expected expression'')
   \<and> parseLine [''SIN''] Some ''10 FOR I = 1 TO'' = Inl (Error ''Expected expression'')
   \<and> translated Some [Token T_number (Num (Finite 2))]"
proof -
  let ?p = "\<lparr>stmnt = [], tokens = [Token T_keyword (Str ''PAUSE'')],
      index = 0, tokenized = True, lineno = Finite 10\<rparr>"
  let ?q = "?p\<lparr>index := 1\<rparr>"
  let ?u = "\<lparr>stmnt = [],
      tokens = [Token T_keyword (Str ''GOTO''), Token T_number (Num (Finite 2))],
      index = 0, tokenized = True, lineno = Finite 10\<rparr>"
  note inst = empty_expression_fails [of ?q ?q Some "Finite 10" ?p ?q ?q ?u
      "GOTO (Finite 10) [Token T_number (Num (Finite 2))]" "?u\<lparr>index := 2\<rparr>" "[''SIN'']"]
  have scan: "expectExpr_loop ?q [] = Inr ([], ?q)"
    by (simp add: parser_eval)
  have nt: "next_token ?p = Inr (Token T_keyword (Str ''PAUSE''), ?q)"
    by (simp add: next_token_def assertTokenized_def)
  have pos: "operand_position Some (Finite 10) ?p ?q"
    by (rule operand_position.after_keyword [OF nt]) simp_all
  have p: "parse Some (Finite 10) ?u =
      Inr (GOTO (Finite 10) [Token T_number (Num (Finite 2))], ?u\<lparr>index := 2\<rparr>)"
    by (simp add: parser_eval)
  from inst scan pos p plain_names_SIN show ?thesis by simp
qed

subsection \<open>When tokenize fails\<close>

lemma LINE_match_None_iff: "LINE_match line = None \<longleftrightarrow> \<not> has_line_number line"
  by (auto simp: LINE_match_def has_line_number_def spaces_def Let_def dropWhile_eq_drop
      takeWhile_eq_Nil_iff split: list.splits)

lemma NUM_match_parseFloat:
  assumes "NUM_match s = Some (m1, m0)"
  shows "parseFloat m1 \<noteq> None"
proof -
  from assms obtain c ip' where ip: "takeWhile is_digit s = c # ip'"
    by (cases "takeWhile is_digit s") (auto simp: NUM_match_def Let_def)
  then have c: "is_digit c"
    by (metis list.set_intros(1) set_takeWhileD)
  from assms have "m1 = takeWhile is_digit s \<or> (\<exists>fp. m1 = takeWhile is_digit s @ ''.'' @ fp)"
    by (auto simp: NUM_match_def Let_def split: if_splits)
  with ip obtain r where "m1 = c # r" by auto
  with c have "NUM_match m1 \<noteq> None"
    by (simp add: NUM_match_def Let_def)
  then show ?thesis
    by (auto simp: parseFloat_def Let_def split: option.splits)
qed

lemma eatNumber_no_throw: "eatNumber lno s \<noteq> Inl e"
  by (auto simp: eatNumber_def split: option.splits dest: NUM_match_parseFloat)

lemma eat_no_throw: "eat funs lno s \<noteq> Inl e"
  by (simp add: eat_def eatNumber_no_throw split: option.splits sum.splits)

lemma scan_position_prepend:
  assumes "scan_position funs lno (drop (length eaten) s) s'"
    and "s \<noteq> []" and "eat funs lno s = Inr (Some (pushed, eaten))"
  shows "scan_position funs lno s s'"
  using assms
proof (induction rule: scan_position.induct)
  case start
  then show ?case
    using scan_position.step [OF scan_position.start] by blast
next
  case (step u pushed' eaten')
  then show ?case
    using scan_position.step by blast
qed

lemma tokenize_loop_stuck:
  assumes "s \<noteq> []" and "eat funs lno s = Inr None"
  shows "tokenize_loop funs lno s toks =
     Inl (ParseError lno (''Invalid syntax near: '' @ [sq] @ s @ [sq]))"
  using assms by (subst tokenize_loop.simps) simp

lemma tokenize_loop_step:
  assumes "s \<noteq> []" and "eat funs lno s = Inr (Some (pushed, eaten))"
  shows "tokenize_loop funs lno s toks =
     tokenize_loop funs lno (drop (length eaten) s) (toks @ pushed)"
  using assms by (subst tokenize_loop.simps) simp

lemma tokenize_loop_fails_position:
  "tokenize_loop funs lno s toks = Inl e \<Longrightarrow>
     \<exists>s'. scan_position funs lno s s' \<and> s' \<noteq> [] \<and> eat funs lno s' = Inr None
        \<and> e = ParseError lno (''Invalid syntax near: '' @ [sq] @ s' @ [sq])"
proof (induction "length s" arbitrary: s toks rule: less_induct)
  case less
  from less.prems have ne: "s \<noteq> []"
    by (auto simp: tokenize_loop.simps [of _ _ "[]"])
  show ?case
  proof (cases "eat funs lno s")
    case (Inl x)
    then show ?thesis using eat_no_throw by blast
  next
    case (Inr r)
    show ?thesis
    proof (cases r)
      case None
      with Inr ne less.prems show ?thesis
        using tokenize_loop_stuck [of s funs lno toks] scan_position.start by auto
    next
      case (Some pe)
      obtain pushed eaten where pe: "pe = (pushed, eaten)" by (cases pe)
      from Inr Some pe have eat: "eat funs lno s = Inr (Some (pushed, eaten))" by simp
      from eat_nonempty [OF eat ne] ne
      have "length (drop (length eaten) s) < length s" by simp
      moreover have "tokenize_loop funs lno (drop (length eaten) s) (toks @ pushed) = Inl e"
        using less.prems tokenize_loop_step [OF ne eat] by simp
      ultimately obtain s' where "scan_position funs lno (drop (length eaten) s) s'"
        and s': "s' \<noteq> []" "eat funs lno s' = Inr None"
        "e = ParseError lno (''Invalid syntax near: '' @ [sq] @ s' @ [sq])"
        using less.hyps by blast
      then have "scan_position funs lno s s'"
        using scan_position_prepend ne eat by blast
      with s' show ?thesis by blast
    qed
  qed
qed

lemma scan_position_loop:
  "scan_position funs lno s0 s \<Longrightarrow>
     \<exists>pushed. \<forall>toks. tokenize_loop funs lno s0 toks = tokenize_loop funs lno s (toks @ pushed)"
proof (induction rule: scan_position.induct)
  case start
  show ?case by (rule exI [of _ "[]"]) simp
next
  case (step s pushed eaten)
  then obtain pushed0 where
    "\<forall>toks. tokenize_loop funs lno s0 toks = tokenize_loop funs lno s (toks @ pushed0)"
    by blast
  then have "\<forall>toks. tokenize_loop funs lno s0 toks =
      tokenize_loop funs lno (drop (length eaten) s) (toks @ (pushed0 @ pushed))"
    using tokenize_loop_step [OF step.hyps(2,3)] by simp
  then show ?case by blast
qed

lemma tokenize_loop_fails_iff:
  "tokenize_loop funs lno s toks = Inl e \<longleftrightarrow>
     (\<exists>s'. scan_position funs lno s s' \<and> s' \<noteq> [] \<and> eat funs lno s' = Inr None
        \<and> e = ParseError lno (''Invalid syntax near: '' @ [sq] @ s' @ [sq]))"
proof
  assume "tokenize_loop funs lno s toks = Inl e"
  then show "\<exists>s'. scan_position funs lno s s' \<and> s' \<noteq> [] \<and> eat funs lno s' = Inr None
      \<and> e = ParseError lno (''Invalid syntax near: '' @ [sq] @ s' @ [sq])"
    by (rule tokenize_loop_fails_position)
next
  assume "\<exists>s'. scan_position funs lno s s' \<and> s' \<noteq> [] \<and> eat funs lno s' = Inr None
      \<and> e = ParseError lno (''Invalid syntax near: '' @ [sq] @ s' @ [sq])"
  then obtain s' where sp: "scan_position funs lno s s'" and ne: "s' \<noteq> []"
    and st: "eat funs lno s' = Inr None"
    and e: "e = ParseError lno (''Invalid syntax near: '' @ [sq] @ s' @ [sq])"
    by blast
  from scan_position_loop [OF sp] obtain pushed where
    "tokenize_loop funs lno s toks = tokenize_loop funs lno s' (toks @ pushed)"
    by blast
  with tokenize_loop_stuck [OF ne st] e show "tokenize_loop funs lno s toks = Inl e"
    by simp
qed

lemma eat_at_sign: "plain_names funs \<Longrightarrow> eat funs lno ''@'' = Inr None"
  by (simp add: lexer_eval)

lemma eat_PRINT_at_sign:
  "plain_names funs \<Longrightarrow>
     eat funs lno ''PRINT @'' = Inr (Some ([Token T_keyword (Str ''PRINT'')], ''PRINT ''))"
  by (simp add: lexer_eval)

text \<open>
  Claim C8 does not hold as it is written: the error of a line that begins with no
  number names no line. The line \<open>PRINT 1\<close> holds no number; its error carries the \<open>-1\<close>
  that the tokenizer starts with.
\<close>

theorem lexical_error_names_no_line_counterexample:
  "tokenizeLine [''SIN''] ''PRINT 1'' =
     Inl (ParseError (Finite (- 1)) ''Every line must start with a line number'')
   \<and> LINE_match ''PRINT 1'' = None
   \<and> lineno (new_Tokenizer ''PRINT 1'') = Finite (- 1)"
  by (simp add: tokenizeLine_def lexer_eval)

text \<open>
  Claim C8, amended. \<open>tokenize\<close> fails in two cases and in no other. Where the line does
  not begin with a number the error is the ParseError of the message
  \<open>Every line must start with a line number\<close>; it names no line: its line number is the
  \<open>-1\<close> that the tokenizer starts with, and no token is made, so none of a default line
  number. Where the line begins with a number, it fails exactly when the loop reaches a
  text, not empty, at which none of the nine patterns matches; the error then carries
  the number of the line, as \<open>parseInt\<close> reads it, and that text.
\<close>

theorem tokenize_fails_iff:
  "(tokenizeLine funs line = Inl e \<longleftrightarrow>
      (\<not> has_line_number line
         \<and> e = ParseError (Finite (- 1)) ''Every line must start with a line number'')
    \<or> (\<exists>d m0 s. LINE_match line = Some (d, m0)
         \<and> scan_position funs (parseInt d) (drop (length m0) line) s
         \<and> s \<noteq> [] \<and> eat funs (parseInt d) s = Inr None
         \<and> e = ParseError (parseInt d) (''Invalid syntax near: '' @ [sq] @ s @ [sq])))
   \<and> (has_line_number line \<longleftrightarrow> LINE_match line \<noteq> None)"
proof (cases "LINE_match line")
  case None
  then show ?thesis
    by (auto simp: LINE_match_None_iff [symmetric] tokenizeLine_def tokenize_def
        new_Tokenizer_def)
next
  case (Some dm)
  obtain d m0 where dm: "dm = (d, m0)" by (cases dm)
  have "tokenizeLine funs line = Inl e \<longleftrightarrow>
      tokenize_loop funs (parseInt d) (drop (length m0) line)
        [Token T_lineno (Num (parseInt d))] = Inl e"
    using Some dm
    by (auto simp: tokenizeLine_def tokenize_def new_Tokenizer_def Let_def split: sum.splits)
  moreover have "has_line_number line"
    using Some LINE_match_None_iff [of line] by simp
  ultimately show ?thesis
    using Some dm by (simp add: tokenize_loop_fails_iff)
qed

theorem tokenize_fails_iff_witness:
  "tokenizeLine [''SIN''] ''LET A'' =
     Inl (ParseError (Finite (- 1)) ''Every line must start with a line number'')
   \<and> \<not> has_line_number ''LET A''
   \<and> tokenizeLine [''SIN''] ''10 PRINT @'' =
     Inl (ParseError (Finite 10) (''Invalid syntax near: '' @ [sq] @ ''@'' @ [sq]))
   \<and> has_line_number ''10 PRINT @''"
proof -
  have a: "\<not> has_line_number ''LET A''"
    by (simp add: has_line_number_def is_space_def is_digit_def)
  have b: "has_line_number ''10 PRINT @''"
    by (simp add: has_line_number_def is_space_def is_digit_def)
  have l: "LINE_match ''10 PRINT @'' = Some (''10'', ''10 '')"
    by (simp add: LINE_match_def spaces_def is_space_def is_digit_def)
  have "scan_position [''SIN''] (Finite 10) ''PRINT @'' (drop (length ''PRINT '') ''PRINT @'')"
    by (rule scan_position.step [OF scan_position.start _ eat_PRINT_at_sign [OF plain_names_SIN]])
      simp
  then have sp: "scan_position [''SIN''] (Finite 10) ''PRINT @'' ''@''" by simp
  have "\<exists>d m0 s. LINE_match ''10 PRINT @'' = Some (d, m0)
         \<and> scan_position [''SIN''] (parseInt d) (drop (length m0) ''10 PRINT @'') s
         \<and> s \<noteq> [] \<and> eat [''SIN''] (parseInt d) s = Inr None
         \<and> ParseError (Finite 10) (''Invalid syntax near: '' @ [sq] @ ''@'' @ [sq]) =
             ParseError (parseInt d) (''Invalid syntax near: '' @ [sq] @ s @ [sq])"
    apply (rule exI [of _ "''10''"])
    apply (rule exI [of _ "''10 ''"])
    apply (rule exI [of _ "''@''"])
    using l sp eat_at_sign [OF plain_names_SIN, of "Finite 10"]
    apply (simp add: parseInt_10)
    done
  then have c: "tokenizeLine [''SIN''] ''10 PRINT @'' =
     Inl (ParseError (Finite 10) (''Invalid syntax near: '' @ [sq] @ ''@'' @ [sq]))"
    using tokenize_fails_iff [of "[''SIN'']" "''10 PRINT @''"
        "ParseError (Finite 10) (''Invalid syntax near: '' @ [sq] @ ''@'' @ [sq])"] b
    by blast
  have d: "tokenizeLine [''SIN''] ''LET A'' =
     Inl (ParseError (Finite (- 1)) ''Every line must start with a line number'')"
    using a tokenize_fails_iff [of "[''SIN'']" "''LET A''"
        "ParseError (Finite (- 1)) ''Every line must start with a line number''"]
    by simp
  from a b c d show ?thesis by simp
qed

subsection \<open>What errors carry\<close>

lemma fails_plainly_simps [simp]:
  "fails_plainly ex Q (Inl e) = parser_error ex e"
  "fails_plainly ex Q (Inr a) = Q a"
  by (simp_all add: fails_plainly_def)

lemma parser_error_simps [simp]:
  "parser_error ex (Error msg)"
  "parser_error ex (TypeError msg)"
  "\<not> parser_error ex (ParseError n msg)"
  by (simp_all add: parser_error_def)




































end
